theory Spec2Isabelle
  imports Complex_Main "HOL-Library.Multiset"
begin

section \<open>Data model\<close>

text \<open>
  Coordinates are NumPy arrays of shape \<open>(N, 3)\<close>: a list of rows, each row a point.
  Floating-point numbers are modelled as reals (rounding is not modelled); the values
  \<open>nan\<close> and \<open>inf\<close> that NumPy produces on a division by zero are kept as results
  of their own.
\<close>

type_synonym point = "real \<times> real \<times> real"
type_synonym coords = "point list"

text \<open>
  A molecule object holds a reference to its coordinate array. The arrays live in a
  store, so that an in-place update through one name (\<^verbatim>\<open>c1 = mol1.coordinates; c1 -= v\<close>)
  is seen through every other name of the same array.
\<close>

type_synonym addr = nat
type_synonym store = "addr \<Rightarrow> coords"

record molecule =
  atomicnums :: "int list"
  coordinates :: addr

datatype error =
    AssertionError
  | ValueError
  | KeyError
  | IndexError
  | NetworkXError
  | LabelCountMismatch

datatype npfloat = Num real | PosInf | NegInf | NaN

subsection \<open>NumPy arithmetic used by the RMSD formulas\<close>

definition np_div :: "real \<Rightarrow> nat \<Rightarrow> npfloat" where
  \<comment> \<open>a float64 divided by a Python int: a division by zero gives nan or an infinity
      (with a warning), it does not raise.\<close>
  "np_div s n =
     (if n = 0 then (if s = 0 then NaN else if 0 < s then PosInf else NegInf)
      else Num (s / real n))"

fun np_sqrt :: "npfloat \<Rightarrow> npfloat" where
  "np_sqrt (Num x) = (if x < 0 then NaN else Num (sqrt x))"
| "np_sqrt PosInf = PosInf"
| "np_sqrt NegInf = NaN"
| "np_sqrt NaN = NaN"

definition psub :: "point \<Rightarrow> point \<Rightarrow> point" where
  "psub p q = (case p of (x, y, z) \<Rightarrow> case q of (x', y', z') \<Rightarrow> (x - x', y - y', z - z'))"

definition sqnorm :: "point \<Rightarrow> real" where
  "sqnorm p = (case p of (x, y, z) \<Rightarrow> x\<^sup>2 + y\<^sup>2 + z\<^sup>2)"

definition sum_sq_diff :: "coords \<Rightarrow> coords \<Rightarrow> real" where
  \<comment> \<open>\<^verbatim>\<open>np.sum((c1 - c2) ** 2)\<close> for two arrays of the same shape.\<close>
  "sum_sq_diff c1 c2 = sum_list (map (\<lambda>(p, q). sqnorm (psub p q)) (zip c1 c2))"

definition np_all_eq :: "int list \<Rightarrow> int list \<Rightarrow> error + bool" where
  \<comment> \<open>\<^verbatim>\<open>np.all(a == b)\<close> on one-dimensional arrays: elementwise on equal lengths,
      broadcast when one side has length one; on shapes that do not broadcast the
      comparison itself raises ValueError (NumPy before 1.25 gave False with a
      warning instead, so that the assertion around it failed).\<close>
  "np_all_eq xs ys =
     (if length xs = length ys then Inr (xs = ys)
      else if length xs = 1 then Inr (\<forall>y\<in>set ys. y = hd xs)
      else if length ys = 1 then Inr (\<forall>x\<in>set xs. x = hd ys)
      else Inl ValueError)"

subsection \<open>The molecule's methods\<close>

definition len_mol :: "molecule \<Rightarrow> nat" where
  \<comment> \<open>Modelled from the spec: \<^verbatim>\<open>len(mol)\<close> of the Molecule class, which is not among the
      sources; the spec's N, the number of atoms (of atomic numbers).\<close>
  "len_mol m = length (atomicnums m)"

definition center_of_geometry :: "coords \<Rightarrow> point" where
  \<comment> \<open>Modelled from the spec: \<^verbatim>\<open>center_of_geometry()\<close> of the Molecule class, which is not
      among the sources; the centroid (mean row) of the coordinate array. On an empty
      array NumPy's mean is nan; it is then subtracted from no row at all.\<close>
  "center_of_geometry c =
     (let n = real (length c) in
      (sum_list (map fst c) / n,
       sum_list (map (fst \<circ> snd) c) / n,
       sum_list (map (snd \<circ> snd) c) / n))"

definition isub :: "store \<Rightarrow> addr \<Rightarrow> point \<Rightarrow> store" where
  \<comment> \<open>\<^verbatim>\<open>c -= v\<close> on a NumPy array: the array at that address is updated in place.\<close>
  "isub h a v = h(a := map (\<lambda>p. psub p v) (h a))"

definition center_in_place :: "store \<Rightarrow> molecule \<Rightarrow> store" where
  \<comment> \<open>\<^verbatim>\<open>c = mol.coordinates; c -= mol.center_of_geometry()\<close>\<close>
  "center_in_place h m = isub h (coordinates m) (center_of_geometry (h (coordinates m)))"

section \<open>pyrmsd/rmsd.py\<close>

definition rmsd_dummy ::
  "store \<Rightarrow> molecule \<Rightarrow> molecule \<Rightarrow> bool \<Rightarrow> (error + npfloat) \<times> store" where
  "rmsd_dummy h mol1 mol2 center =
     (case np_all_eq (atomicnums mol1) (atomicnums mol2) of
        Inl e \<Rightarrow> (Inl e, h)
      | Inr same \<Rightarrow>
      if \<not> same then (Inl AssertionError, h)
      else if length (h (coordinates mol1)) \<noteq> length (h (coordinates mol2))
        then (Inl AssertionError, h)
      else
        let n = len_mol mol1;
            h1 = (if center then center_in_place h mol1 else h);
            h2 = (if center then center_in_place h1 mol2 else h1);
            c1 = h2 (coordinates mol1);
            c2 = h2 (coordinates mol2)
        in (Inr (np_sqrt (np_div (sum_sq_diff c1 c2) n)), h2))"

definition rmsd_qcp ::
  "(coords \<Rightarrow> coords \<Rightarrow> error + npfloat) \<Rightarrow> store \<Rightarrow> molecule \<Rightarrow> molecule \<Rightarrow>
     (error + npfloat) \<times> store" where
  \<comment> \<open>\<^verbatim>\<open>qcp.qcp_rmsd\<close> is not among the sources: it is the parameter \<open>qcp_rmsd\<close>.
      The centred arrays are new arrays (\<^verbatim>\<open>mol.coordinates - centre\<close>).\<close>
  "rmsd_qcp qcp_rmsd h mol1 mol2 =
     (case np_all_eq (atomicnums mol1) (atomicnums mol2) of
        Inl e \<Rightarrow> (Inl e, h)
      | Inr same \<Rightarrow>
      if \<not> same then (Inl AssertionError, h)
      else
        let c1 = map (\<lambda>p. psub p (center_of_geometry (h (coordinates mol1)))) (h (coordinates mol1));
            c2 = map (\<lambda>p. psub p (center_of_geometry (h (coordinates mol2)))) (h (coordinates mol2))
        in (qcp_rmsd c1 c2, h))"

subsection \<open>The assignment step\<close>

definition class_indices :: "int list \<Rightarrow> int \<Rightarrow> nat list" where
  \<comment> \<open>Modelled from the spec: the atom indices of one atomic-number class.\<close>
  "class_indices ls z = filter (\<lambda>i. ls ! i = z) [0..<length ls]"

definition cost_matrix :: "coords \<Rightarrow> coords \<Rightarrow> nat list \<Rightarrow> nat list \<Rightarrow> real list list" where
  \<comment> \<open>Modelled from the spec: the pairwise Euclidean distances between the members of
      one class in the two structures.\<close>
  "cost_matrix c1 c2 idx1 idx2 =
     map (\<lambda>i. map (\<lambda>j. sqrt (sqnorm (psub (c1 ! i) (c2 ! j)))) idx2) idx1"

definition class_pairs ::
  "(real list list \<Rightarrow> nat list) \<Rightarrow> coords \<Rightarrow> coords \<Rightarrow> int list \<Rightarrow> int list \<Rightarrow> int \<Rightarrow>
     (nat \<times> nat) list" where
  \<comment> \<open>Modelled from the spec: the correspondence that the solver finds within one
      class.\<close>
  "class_pairs solve c1 c2 l1 l2 z =
     (let idx1 = class_indices l1 z; idx2 = class_indices l2 z;
          p = solve (cost_matrix c1 c2 idx1 idx2)
      in zip idx1 (map (\<lambda>k. idx2 ! k) p))"

definition hungarian_rmsd ::
  "(real list list \<Rightarrow> nat list) \<Rightarrow> coords \<Rightarrow> coords \<Rightarrow> int list \<Rightarrow> int list \<Rightarrow> error + npfloat" where
  \<comment> \<open>Modelled from the spec: \<^verbatim>\<open>hungarian.hungarian_rmsd\<close>, which is not among the
      sources. The atoms of both structures are partitioned by atomic number; the
      populations must match exactly, else LabelCountMismatch; within each class the
      assignment problem on the Euclidean distances is solved (the solver is the
      parameter \<open>solve\<close>, it returns a permutation); the correspondences are
      concatenated and the dummy formula is applied to the matched pairs.\<close>
  "hungarian_rmsd solve c1 c2 l1 l2 =
     (let classes = remdups (l1 @ l2) in
      if \<exists>z\<in>set classes. length (class_indices l1 z) \<noteq> length (class_indices l2 z)
      then Inl LabelCountMismatch
      else
        let pairs = concat (map (class_pairs solve c1 c2 l1 l2) classes) in
        Inr (np_sqrt (np_div
               (sum_list (map (\<lambda>(i, j). sqnorm (psub (c1 ! i) (c2 ! j))) pairs))
               (length l1))))"

definition rmsd_hungarian ::
  "(real list list \<Rightarrow> nat list) \<Rightarrow> store \<Rightarrow> molecule \<Rightarrow> molecule \<Rightarrow> bool \<Rightarrow>
     (error + npfloat) \<times> store" where
  "rmsd_hungarian solve h mol1 mol2 center =
     (if length (atomicnums mol1) \<noteq> length (atomicnums mol2) then (Inl AssertionError, h)
      else if length (h (coordinates mol1)) \<noteq> length (h (coordinates mol2))
        then (Inl AssertionError, h)
      else
        let h1 = (if center then center_in_place h mol1 else h);
            h2 = (if center then center_in_place h1 mol2 else h1);
            c1 = h2 (coordinates mol1);
            c2 = h2 (coordinates mol2)
        in (hungarian_rmsd solve c1 c2 (atomicnums mol1) (atomicnums mol2), h2))"

subsection \<open>The isomorphism-based RMSD\<close>

definition take_rows :: "coords \<Rightarrow> nat list \<Rightarrow> error + coords" where
  \<comment> \<open>\<^verbatim>\<open>c[idx, :]\<close>: a new array of the rows named by the indices; an index beyond the
      rows raises IndexError.\<close>
  "take_rows c idx =
     (if \<forall>i\<in>set idx. i < length c then Inr (map (\<lambda>i. c ! i) idx) else Inl IndexError)"

definition rmsd_isomorphic ::
  "('g \<Rightarrow> 'g \<Rightarrow> error + (nat \<times> nat) list) \<Rightarrow> (molecule \<Rightarrow> 'g) \<Rightarrow>
     store \<Rightarrow> molecule \<Rightarrow> molecule \<Rightarrow> bool \<Rightarrow> (error + npfloat) \<times> store" where
  \<comment> \<open>\<^verbatim>\<open>graph.match_graphs\<close> of the pyrmsd package and \<^verbatim>\<open>to_graph\<close> of the Molecule
      class are not among the sources: they are the parameters \<open>matcher\<close> and \<open>to_graph\<close>.
      The result of the matcher is read with \<^verbatim>\<open>.keys()\<close> and \<^verbatim>\<open>.values()\<close>: it is one
      dictionary, given here as its list of items.\<close>
  "rmsd_isomorphic matcher to_graph h mol1 mol2 center =
     (if length (atomicnums mol1) \<noteq> length (atomicnums mol2) then (Inl AssertionError, h)
      else if length (h (coordinates mol1)) \<noteq> length (h (coordinates mol2))
        then (Inl AssertionError, h)
      else
        let n = len_mol mol1;
            h1 = (if center then center_in_place h mol1 else h);
            h2 = (if center then center_in_place h1 mol2 else h1);
            G1 = to_graph mol1;
            G2 = to_graph mol2
        in case matcher G1 G2 of
             Inl e \<Rightarrow> (Inl e, h2)
           | Inr mapping \<Rightarrow>
               (case take_rows (h2 (coordinates mol1)) (map fst mapping) of
                  Inl e \<Rightarrow> (Inl e, h2)
                | Inr c1 \<Rightarrow>
                    (case take_rows (h2 (coordinates mol2)) (map snd mapping) of
                       Inl e \<Rightarrow> (Inl e, h2)
                     | Inr c2 \<Rightarrow> (Inr (np_sqrt (np_div (sum_sq_diff c1 c2) n)), h2))))"

section \<open>spyrmsd/graphs/nx.py\<close>

text \<open>
  A networkx graph: its nodes in insertion order, its edges (undirected: an edge is
  listed in either direction), and the node attribute \<^verbatim>\<open>"atomicnum"\<close>, which a node
  may or may not carry.
\<close>

record 'n graph =
  nodes :: "'n list"
  edges :: "('n \<times> 'n) list"
  atomicnum :: "'n \<Rightarrow> int option"

datatype warning = NoAtomicNumberWarning

definition has_edge :: "'n graph \<Rightarrow> 'n \<Rightarrow> 'n \<Rightarrow> bool" where
  "has_edge G u v \<longleftrightarrow> (u, v) \<in> set (edges G) \<or> (v, u) \<in> set (edges G)"







definition get_node_attributes :: "'n graph \<Rightarrow> ('n \<times> int) list" where
  \<comment> \<open>\<^verbatim>\<open>nx.get_node_attributes(G, "atomicnum")\<close>: the dictionary of the nodes that carry
      the attribute.\<close>
  "get_node_attributes G =
     concat (map (\<lambda>n. case atomicnum G n of None \<Rightarrow> [] | Some a \<Rightarrow> [(n, a)]) (nodes G))"

definition match_atomicnum :: "int option \<Rightarrow> int option \<Rightarrow> error + bool" where
  \<comment> \<open>\<^verbatim>\<open>node1["atomicnum"] == node2["atomicnum"]\<close> on the attribute dictionaries of two
      nodes: a node without the attribute raises KeyError.\<close>
  "match_atomicnum node1 node2 =
     (case node1 of
        None \<Rightarrow> Inl KeyError
      | Some a1 \<Rightarrow> (case node2 of None \<Rightarrow> Inl KeyError | Some a2 \<Rightarrow> Inr (a1 = a2)))"

subsection \<open>The graph matcher of networkx\<close>

text \<open>
  \<^verbatim>\<open>GraphMatcher\<close> belongs to the networkx library. Its search (VF2) is modelled by what
  it computes: the one-to-one mappings of the nodes of \<open>G1\<close> onto the nodes of \<open>G2\<close> that
  keep the edges and pass \<open>node_match\<close>, found here by going through all arrangements of
  the nodes of \<open>G1\<close>. The order in which the library produces the mappings, and the order
  of the items inside a mapping, are the library's own and are not modelled: the
  theorems speak of the mappings as sets of pairs. On graphs of which some nodes carry
  an atomic number and others do not, \<open>node_match\<close> raises KeyError when the search
  reaches a node without one; whether the library reaches such a node before it finds
  that the graphs are not isomorphic depends on its search order, so that there the
  model can give KeyError where the library gives ValueError. Every theorem below
  excludes such graphs.
\<close>

fun inserts :: "'a \<Rightarrow> 'a list \<Rightarrow> 'a list list" where
  "inserts x [] = [[x]]"
| "inserts x (y # ys) = (x # y # ys) # map ((#) y) (inserts x ys)"

fun arrangements :: "'a list \<Rightarrow> 'a list list" where
  "arrangements [] = [[]]"
| "arrangements (x # xs) = concat (map (inserts x) (arrangements xs))"

fun all_err :: "('a \<Rightarrow> error + bool) \<Rightarrow> 'a list \<Rightarrow> error + bool" where
  "all_err P [] = Inr True"
| "all_err P (x # xs) =
     (case P x of Inl e \<Rightarrow> Inl e | Inr b \<Rightarrow> if b then all_err P xs else Inr False)"

fun filter_err :: "('a \<Rightarrow> error + bool) \<Rightarrow> 'a list \<Rightarrow> error + 'a list" where
  "filter_err P [] = Inr []"
| "filter_err P (x # xs) =
     (case P x of
        Inl e \<Rightarrow> Inl e
      | Inr b \<Rightarrow>
          (case filter_err P xs of
             Inl e \<Rightarrow> Inl e
           | Inr ys \<Rightarrow> Inr (if b then x # ys else ys)))"

definition candidate_mappings :: "'n graph \<Rightarrow> 'n graph \<Rightarrow> ('n \<times> 'n) list list" where
  "candidate_mappings G1 G2 =
     (if length (nodes G1) = length (nodes G2)
      then map (\<lambda>p. zip p (nodes G2)) (arrangements (nodes G1))
      else [])"

definition keeps_edges :: "'n graph \<Rightarrow> 'n graph \<Rightarrow> ('n \<times> 'n) list \<Rightarrow> bool" where
  "keeps_edges G1 G2 m \<longleftrightarrow>
     (\<forall>(u, v)\<in>set m. \<forall>(u', v')\<in>set m. has_edge G1 u u' = has_edge G2 v v')"

definition passes_node_match ::
  "(int option \<Rightarrow> int option \<Rightarrow> error + bool) option \<Rightarrow> 'n graph \<Rightarrow> 'n graph \<Rightarrow>
     ('n \<times> 'n) list \<Rightarrow> error + bool" where
  "passes_node_match node_match G1 G2 m =
     (case node_match of
        None \<Rightarrow> Inr True
      | Some f \<Rightarrow> all_err (\<lambda>(u, v). f (atomicnum G1 u) (atomicnum G2 v)) m)"

definition isomorphisms_iter ::
  "'n graph \<Rightarrow> 'n graph \<Rightarrow> (int option \<Rightarrow> int option \<Rightarrow> error + bool) option \<Rightarrow>
     error + ('n \<times> 'n) list list" where
  "isomorphisms_iter G1 G2 node_match =
     filter_err (\<lambda>m. if keeps_edges G1 G2 m then passes_node_match node_match G1 G2 m
                     else Inr False)
       (candidate_mappings G1 G2)"

definition is_isomorphic ::
  "'n graph \<Rightarrow> 'n graph \<Rightarrow> (int option \<Rightarrow> int option \<Rightarrow> error + bool) option \<Rightarrow> error + bool" where
  "is_isomorphic G1 G2 node_match =
     (case isomorphisms_iter G1 G2 node_match of Inl e \<Rightarrow> Inl e | Inr ms \<Rightarrow> Inr (ms \<noteq> []))"

subsection \<open>match\_graphs\<close>

definition match_graphs ::
  "'n graph \<Rightarrow> 'n graph \<Rightarrow> warning list \<times> (error + ('n list \<times> 'n list) list)" where
  "match_graphs G1 G2 =
     (let unlabelled = (get_node_attributes G1 = [] \<or> get_node_attributes G2 = []);
          node_match = (if unlabelled then None else Some match_atomicnum);
          warnings = (if unlabelled then [NoAtomicNumberWarning] else [])
      in (warnings,
          case is_isomorphic G1 G2 node_match of
            Inl e \<Rightarrow> Inl e
          | Inr b \<Rightarrow>
              if \<not> b then Inl ValueError
              else (case isomorphisms_iter G1 G2 node_match of
                      Inl e \<Rightarrow> Inl e
                    | Inr isos \<Rightarrow>
                        Inr (map (\<lambda>isomorphism. (map fst isomorphism, map snd isomorphism)) isos))))"

section \<open>Notions of the specification\<close>

subsection \<open>Distances\<close>

definition euclid :: "point \<Rightarrow> point \<Rightarrow> real" where
  \<comment> \<open>The Euclidean distance between two points, written out on the three
      coordinates.\<close>
  "euclid p q =
     sqrt ((fst p - fst q)\<^sup>2 + (fst (snd p) - fst (snd q))\<^sup>2 + (snd (snd p) - snd (snd q))\<^sup>2)"

subsection \<open>Isomorphism mappings\<close>

definition unlabelled :: "'n graph \<Rightarrow> bool" where
  \<comment> \<open>no node carries an atomic number: the test \<open>match_graphs\<close> makes\<close>
  "unlabelled G \<longleftrightarrow> get_node_attributes G = []"

definition fully_labelled :: "'n graph \<Rightarrow> bool" where
  "fully_labelled G \<longleftrightarrow> (\<forall>n\<in>set (nodes G). atomicnum G n \<noteq> None)"

definition compatible :: "'n graph \<Rightarrow> 'n graph \<Rightarrow> 'n \<Rightarrow> 'n \<Rightarrow> bool" where
  \<comment> \<open>The applicable node-compatibility predicate: equal atomic numbers when both graphs
      carry labels, nothing to check when one of them carries none.\<close>
  "compatible G1 G2 u v \<longleftrightarrow> unlabelled G1 \<or> unlabelled G2 \<or> atomicnum G1 u = atomicnum G2 v"

definition is_isomorphism :: "'n graph \<Rightarrow> 'n graph \<Rightarrow> ('n \<times> 'n) set \<Rightarrow> bool" where
  \<comment> \<open>\<open>M\<close> pairs every node of \<open>G1\<close> with exactly one node of \<open>G2\<close> and conversely,
      keeps the edges and pairs compatible nodes only.\<close>
  "is_isomorphism G1 G2 M \<longleftrightarrow>
     M \<subseteq> set (nodes G1) \<times> set (nodes G2) \<and>
     (\<forall>u\<in>set (nodes G1). \<exists>!v. (u, v) \<in> M) \<and>
     (\<forall>v\<in>set (nodes G2). \<exists>!u. (u, v) \<in> M) \<and>
     (\<forall>(u, v)\<in>M. \<forall>(u', v')\<in>M. has_edge G1 u u' = has_edge G2 v v') \<and>
     (\<forall>(u, v)\<in>M. compatible G1 G2 u v)"

definition mapping_set :: "'n list \<times> 'n list \<Rightarrow> ('n \<times> 'n) set" where
  \<comment> \<open>the correspondence that a pair of index sequences stands for\<close>
  "mapping_set km = set (zip (fst km) (snd km))"

definition erase_labels :: "'n graph \<Rightarrow> 'n graph" where
  "erase_labels G = G\<lparr>atomicnum := (\<lambda>_. None)\<rparr>"

definition good_mapping :: "'n graph \<Rightarrow> 'n graph \<Rightarrow> ('n \<times> 'n) list \<Rightarrow> bool" where
  "good_mapping G1 G2 m \<longleftrightarrow>
     keeps_edges G1 G2 m \<and> (\<forall>(u, v)\<in>set m. compatible G1 G2 u v)"

subsection \<open>Candidate values of the isomorphism-based RMSD\<close>

definition candidate_rmsd :: "coords \<Rightarrow> coords \<Rightarrow> nat \<Rightarrow> (nat \<times> nat) set \<Rightarrow> real" where
  \<comment> \<open>The candidate RMSD of a mapping, given as its set of pairs: the square root of the
      mean, over the \<open>n\<close> atoms, of the squared distance between the atoms that the
      mapping pairs.\<close>
  "candidate_rmsd c1 c2 n M = sqrt ((\<Sum>(k, v)\<in>M. (euclid (c1 ! k) (c2 ! v))\<^sup>2) / real n)"

definition min_candidate_rmsd :: "coords \<Rightarrow> coords \<Rightarrow> nat \<Rightarrow> nat graph \<Rightarrow> nat graph \<Rightarrow> real" where
  \<comment> \<open>The minimum of the candidate RMSD over all isomorphism mappings between two
      (isomorphic) graphs.\<close>
  "min_candidate_rmsd c1 c2 n G1 G2 = Min (candidate_rmsd c1 c2 n ` {M. is_isomorphism G1 G2 M})"

definition centred :: "coords \<Rightarrow> coords" where
  \<comment> \<open>a coordinate set with its own centroid subtracted\<close>
  "centred c = map (\<lambda>q. psub q (center_of_geometry c)) c"

subsection \<open>Relabelling the atoms of a molecule\<close>

definition relabel :: "nat list \<Rightarrow> 'a list \<Rightarrow> 'a list" where
  \<comment> \<open>the sequence relabelled by \<open>p\<close>: atom \<open>i\<close> of the result is atom \<open>p ! i\<close> of the
      original\<close>
  "relabel p xs = map (\<lambda>i. xs ! (p ! i)) [0..<length xs]"

definition relabel_matrix :: "nat list \<Rightarrow> int list list \<Rightarrow> int list list" where
  "relabel_matrix p A =
     map (\<lambda>i. map (\<lambda>j. A ! (p ! i) ! (p ! j)) [0..<length A]) [0..<length A]"

definition relabelling :: "nat list \<Rightarrow> (nat \<times> nat) set" where
  \<comment> \<open>the correspondence \<open>i \<mapsto> p ! i\<close>\<close>
  "relabelling p = set (zip [0..<length p] p)"

definition relabelled_graph :: "nat list \<Rightarrow> nat graph \<Rightarrow> nat graph \<Rightarrow> bool" where
  \<comment> \<open>\<open>G'\<close> is \<open>G\<close> with its vertices relabelled by \<open>p\<close>: vertex \<open>i\<close> of \<open>G'\<close> is
      vertex \<open>p ! i\<close> of \<open>G\<close>, with its edges and its atomic number.\<close>
  "relabelled_graph p G G' \<longleftrightarrow>
     set (nodes G') = set (nodes G) \<and>
     (\<forall>i\<in>set (nodes G). \<forall>j\<in>set (nodes G). has_edge G' i j = has_edge G (p ! i) (p ! j)) \<and>
     (\<forall>i\<in>set (nodes G). atomicnum G' i = atomicnum G (p ! i))"

section \<open>The batch wrapper\<close>

text \<open>
  The batch wrapper (\<^verbatim>\<open>spyrmsd.parallel.prmsdwrapper\<close>) is not among the sources; only
  its tests are. It is modelled from sections 4.5 and 5 of the spec: one job per
  target, in input order; per job the states Pending, Running and then Completed with
  a value, TimedOut or Failed; a results slot per job, written at the job's own index;
  a fixed number of workers; a per-pair timeout. Time is counted in abstract units, and
  what a pairwise computation does when left alone is a datum of the job.
\<close>

datatype rmsd_result = Value real | Unavailable

datatype job_state = Pending | Running | Completed real | TimedOut | Failed

datatype outcome =
    Finishes nat real  \<comment> \<open>returns the value after so many time units\<close>
  | Crashes nat        \<comment> \<open>fails after so many time units\<close>
  | Stalls             \<comment> \<open>never ends\<close>

fun exceeds :: "nat option \<Rightarrow> outcome \<Rightarrow> bool" where
  \<comment> \<open>Modelled from the spec: the computation exceeds the per-pair timeout.\<close>
  "exceeds None j = False"
| "exceeds (Some t) (Finishes d v) = (t < d)"
| "exceeds (Some t) (Crashes d) = (t < d)"
| "exceeds (Some t) Stalls = True"

fun run_job :: "nat option \<Rightarrow> outcome \<Rightarrow> job_state option" where
  \<comment> \<open>Modelled from the spec: the state in which a running job ends; None when it
      never leaves Running (a computation that never ends, with no timeout set).\<close>
  "run_job timeout (Finishes d v) =
     Some (if exceeds timeout (Finishes d v) then TimedOut else Completed v)"
| "run_job timeout (Crashes d) =
     Some (if exceeds timeout (Crashes d) then TimedOut else Failed)"
| "run_job timeout Stalls = (case timeout of None \<Rightarrow> None | Some t \<Rightarrow> Some TimedOut)"

fun surface :: "job_state \<Rightarrow> rmsd_result" where
  \<comment> \<open>Modelled from the spec: TimedOut and Failed both surface as the sentinel; only
      Completed carries a numeric value.\<close>
  "surface (Completed v) = Value v"
| "surface s = Unavailable"

fun terminal :: "job_state \<Rightarrow> bool" where
  "terminal Pending = False"
| "terminal Running = False"
| "terminal s = True"

inductive batch_step :: "nat \<Rightarrow> nat option \<Rightarrow> outcome list \<Rightarrow> job_state list \<Rightarrow> job_state list \<Rightarrow> bool"
  for workers :: nat and timeout :: "nat option" and jobs :: "outcome list" where
  \<comment> \<open>Modelled from the spec: a free worker takes a pending job; a running job ends
      and its state is written into the slot of its own index.\<close>
  start: "i < length slots \<Longrightarrow> slots ! i = Pending \<Longrightarrow>
          length (filter (\<lambda>s. s = Running) slots) < workers \<Longrightarrow>
          batch_step workers timeout jobs slots (slots[i := Running])"
| finish: "i < length slots \<Longrightarrow> slots ! i = Running \<Longrightarrow>
          run_job timeout (jobs ! i) = Some r \<Longrightarrow>
          batch_step workers timeout jobs slots (slots[i := r])"

definition batch_returns :: "nat \<Rightarrow> nat option \<Rightarrow> outcome list \<Rightarrow> rmsd_result list \<Rightarrow> bool" where
  \<comment> \<open>Modelled from the spec: the batch returns once every slot holds a final state;
      it returns what the slots surface, in the order of the slots.\<close>
  "batch_returns workers timeout jobs results \<longleftrightarrow>
     (\<exists>slots. (batch_step workers timeout jobs)\<^sup>*\<^sup>* (replicate (length jobs) Pending) slots \<and>
              list_all terminal slots \<and> results = map surface slots)"

definition batch_rmsd ::
  "('m \<Rightarrow> 'm \<Rightarrow> outcome) \<Rightarrow> nat \<Rightarrow> nat option \<Rightarrow> 'm \<Rightarrow> 'm list \<Rightarrow> rmsd_result list \<Rightarrow> bool" where
  \<comment> \<open>Modelled from the spec: \<open>batch_rmsd(reference, targets, config)\<close>, one job per
      target; \<open>compute\<close> says how the pairwise computation of a pair behaves.\<close>
  "batch_rmsd compute workers timeout reference targets results \<longleftrightarrow>
     batch_returns workers timeout (map (compute reference) targets) results"

definition job_result :: "nat option \<Rightarrow> outcome \<Rightarrow> rmsd_result" where
  \<comment> \<open>what the caller sees for one job that has ended\<close>
  "job_result timeout j = (case run_job timeout j of None \<Rightarrow> Unavailable | Some s \<Rightarrow> surface s)"

section \<open>Example values\<close>

definition mol_a :: molecule where
  "mol_a = \<lparr>atomicnums = [6, 6], coordinates = 0\<rparr>"

definition mol_b :: molecule where
  "mol_b = \<lparr>atomicnums = [6, 6], coordinates = 1\<rparr>"

definition store_ab :: store where
  \<comment> \<open>two atoms on the x axis; the second array lists them in the other order\<close>
  "store_ab = (\<lambda>a. if a = 0 then [(0, 0, 0), (1, 0, 0)]
                    else if a = 1 then [(1, 0, 0), (0, 0, 0)] else [])"

definition g_pair :: "nat graph" where
  "g_pair = \<lparr>nodes = [0, 1], edges = [(0, 1), (1, 0)], atomicnum = map_of [(0, 6), (1, 6)]\<rparr>"

definition g_co :: "nat graph" where
  \<comment> \<open>a carbon bonded to an oxygen\<close>
  "g_co = \<lparr>nodes = [0, 1], edges = [(0, 1), (1, 0)], atomicnum = map_of [(0, 6), (1, 8)]\<rparr>"

definition g_edge :: "nat graph" where
  \<comment> \<open>two bonded atoms without atomic numbers\<close>
  "g_edge = \<lparr>nodes = [0, 1], edges = [(0, 1), (1, 0)], atomicnum = (\<lambda>_. None)\<rparr>"

definition to_graph_pair :: "molecule \<Rightarrow> nat graph" where
  \<comment> \<open>for the example molecules: two bonded carbon atoms\<close>
  "to_graph_pair m = g_pair"

definition matcher_identity :: "nat graph \<Rightarrow> nat graph \<Rightarrow> error + (nat \<times> nat) list" where
  \<comment> \<open>a matcher that hands over the mapping \<open>{0: 0, 1: 1}\<close>\<close>
  "matcher_identity G1 G2 = Inr [(0, 0), (1, 1)]"

definition matcher_swap :: "nat graph \<Rightarrow> nat graph \<Rightarrow> error + (nat \<times> nat) list" where
  \<comment> \<open>a matcher that hands over the mapping \<open>{1: 0, 0: 1}\<close>\<close>
  "matcher_swap G1 G2 = Inr [(1, 0), (0, 1)]"

definition matcher_swap_sorted :: "nat graph \<Rightarrow> nat graph \<Rightarrow> error + (nat \<times> nat) list" where
  \<comment> \<open>a matcher that hands over the same mapping as \<open>{0: 1, 1: 0}\<close>\<close>
  "matcher_swap_sorted G1 G2 = Inr [(0, 1), (1, 0)]"

definition mol_c :: molecule where
  \<comment> \<open>a single carbon atom\<close>
  "mol_c = \<lparr>atomicnums = [6], coordinates = 2\<rparr>"

definition mol_d :: molecule where
  \<comment> \<open>a carbon and an oxygen atom\<close>
  "mol_d = \<lparr>atomicnums = [6, 8], coordinates = 1\<rparr>"

definition store_abc :: store where
  "store_abc = store_ab(2 := [(0, 0, 0)])"

definition solve_identity :: "real list list \<Rightarrow> nat list" where
  \<comment> \<open>a solver that assigns row \<open>i\<close> to column \<open>i\<close>\<close>
  "solve_identity D = [0..<length D]"

definition compute_example :: "nat \<Rightarrow> nat \<Rightarrow> outcome" where
  \<comment> \<open>an example: the pair with target 0 never ends, every other pair returns 2 after
      one time unit\<close>
  "compute_example reference target = (if target = 0 then Stalls else Finishes 1 2)"

section \<open>The dummy RMSD formula\<close>

lemma sqnorm_nonneg: "0 \<le> sqnorm p"
  by (simp add: sqnorm_def split: prod.splits)

lemma euclid_sq: "(euclid p q)\<^sup>2 = sqnorm (psub p q)"
proof -
  obtain x y z where p: "p = (x, y, z)" by (cases p) auto
  obtain x' y' z' where q: "q = (x', y', z')" by (cases q) auto
  have "0 \<le> (x - x')\<^sup>2 + (y - y')\<^sup>2 + (z - z')\<^sup>2" by simp
  then show ?thesis by (simp add: p q euclid_def sqnorm_def psub_def)
qed

lemma sum_sq_diff_nonneg: "0 \<le> sum_sq_diff c1 c2"
  unfolding sum_sq_diff_def
  by (rule sum_list_nonneg) (auto simp: sqnorm_nonneg)

lemma sum_sq_diff_sum:
  assumes "length c1 = length c2"
  shows "sum_sq_diff c1 c2 = (\<Sum>i<length c1. (euclid (c1 ! i) (c2 ! i))\<^sup>2)"
proof -
  have "sum_sq_diff c1 c2 = (\<Sum>i<length (zip c1 c2). (\<lambda>(p, q). sqnorm (psub p q)) (zip c1 c2 ! i))"
    unfolding sum_sq_diff_def
    by (simp add: sum_list_sum_nth atLeast0LessThan)
  also have "\<dots> = (\<Sum>i<length c1. (euclid (c1 ! i) (c2 ! i))\<^sup>2)"
    using assms by (simp add: euclid_sq)
  finally show ?thesis .
qed

text \<open>
  C7. For two molecules with equal atomic-number sequences and coordinate arrays of the
  same shape, of N atoms (N at least one, as the data model requires), \<open>rmsd_dummy\<close> with
  \<open>center=False\<close> returns the square root of (1/N) times the sum over the atoms of the
  squared Euclidean distance between the i-th points, and leaves the store as it was.
\<close>

theorem rmsd_dummy_formula:
  assumes "atomicnums mol1 = atomicnums mol2"
    and "length (h (coordinates mol1)) = N"
    and "length (h (coordinates mol2)) = N"
    and "len_mol mol1 = N"
    and "0 < N"
  shows "rmsd_dummy h mol1 mol2 False =
           (Inr (Num (sqrt ((1 / real N) *
              (\<Sum>i<N. (euclid (h (coordinates mol1) ! i) (h (coordinates mol2) ! i))\<^sup>2)))), h)"
proof -
  let ?c1 = "h (coordinates mol1)" and ?c2 = "h (coordinates mol2)"
  have eq: "np_all_eq (atomicnums mol1) (atomicnums mol2) = Inr True"
    using assms(1) by (simp add: np_all_eq_def)
  have s: "sum_sq_diff ?c1 ?c2 = (\<Sum>i<N. (euclid (?c1 ! i) (?c2 ! i))\<^sup>2)"
    using sum_sq_diff_sum [of ?c1 ?c2] assms(2,3) by simp
  have nn: "\<not> sum_sq_diff ?c1 ?c2 / real N < 0"
    using sum_sq_diff_nonneg [of ?c1 ?c2] assms(5) by (simp add: not_less)
  have "rmsd_dummy h mol1 mol2 False =
          (Inr (Num (sqrt (sum_sq_diff ?c1 ?c2 / real N))), h)"
    using eq assms(2,3,4,5) nn by (simp add: rmsd_dummy_def np_div_def Let_def)
  then show ?thesis by (simp add: s)
qed

theorem rmsd_dummy_formula_witness:
  "rmsd_dummy store_ab mol_a mol_b False =
     (Inr (Num (sqrt ((1 / real 2) *
        (\<Sum>i<2. (euclid (store_ab (coordinates mol_a) ! i) (store_ab (coordinates mol_b) ! i))\<^sup>2)))),
      store_ab) \<and>
   sqrt ((1 / real 2) *
        (\<Sum>i<2. (euclid (store_ab (coordinates mol_a) ! i) (store_ab (coordinates mol_b) ! i))\<^sup>2))
     = 1"
proof -
  have 1: "atomicnums mol_a = atomicnums mol_b" by (simp add: mol_a_def mol_b_def)
  have 2: "length (store_ab (coordinates mol_a)) = 2" by (simp add: mol_a_def store_ab_def)
  have 3: "length (store_ab (coordinates mol_b)) = 2" by (simp add: mol_b_def store_ab_def)
  have 4: "len_mol mol_a = 2" by (simp add: mol_a_def len_mol_def)
  have 5: "0 < (2::nat)" by simp
  have a: "store_ab (coordinates mol_a) = [(0, 0, 0), (1, 0, 0)]"
    by (simp add: mol_a_def store_ab_def)
  have b: "store_ab (coordinates mol_b) = [(1, 0, 0), (0, 0, 0)]"
    by (simp add: mol_b_def store_ab_def)
  have v: "sqrt ((1 / real 2) *
        (\<Sum>i<2. (euclid (store_ab (coordinates mol_a) ! i) (store_ab (coordinates mol_b) ! i))\<^sup>2))
     = 1"
    unfolding a b by (simp add: euclid_def lessThan_Suc numeral_2_eq_2)
  show ?thesis using rmsd_dummy_formula [OF 1 2 3 4 5] v by (rule conjI)
qed

section \<open>The graph matcher\<close>

lemma inserts_mset: "zs \<in> set (inserts x ys) \<Longrightarrow> mset zs = add_mset x (mset ys)"
  by (induction ys arbitrary: zs) auto

lemma inserts_mem: "as @ x # bs \<in> set (inserts x (as @ bs))"
proof (induction as)
  case Nil
  show ?case by (cases bs) simp_all
next
  case (Cons a as)
  then show ?case by simp
qed

lemma arrangements_sound: "ys \<in> set (arrangements xs) \<Longrightarrow> mset ys = mset xs"
  by (induction xs arbitrary: ys) (auto dest: inserts_mset)

lemma arrangements_complete: "mset ys = mset xs \<Longrightarrow> ys \<in> set (arrangements xs)"
proof (induction xs arbitrary: ys)
  case Nil
  then show ?case by simp
next
  case (Cons x xs)
  then have "x \<in> set ys"
    by (metis list.set_intros(1) mset_eq_setD)
  then obtain as bs where ys: "ys = as @ x # bs"
    by (meson split_list)
  with Cons.prems have "mset (as @ bs) = mset xs" by simp
  then have "as @ bs \<in> set (arrangements xs)" by (rule Cons.IH)
  then show ?case using ys inserts_mem [of as x bs] by auto
qed

lemma set_arrangements: "set (arrangements xs) = {ys. mset ys = mset xs}"
  using arrangements_sound arrangements_complete by blast

lemma all_err_total:
  "(\<forall>x\<in>set xs. P x = Inr (Q x)) \<Longrightarrow> all_err P xs = Inr (\<forall>x\<in>set xs. Q x)"
  by (induction xs) auto

lemma filter_err_total:
  "(\<forall>x\<in>set xs. P x = Inr (Q x)) \<Longrightarrow> filter_err P xs = Inr (filter Q xs)"
  by (induction xs) auto

lemma unlabelled_iff: "unlabelled G \<longleftrightarrow> (\<forall>n\<in>set (nodes G). atomicnum G n = None)"
  by (auto simp: unlabelled_def get_node_attributes_def split: option.splits)

lemma candidate_nodes:
  assumes "m \<in> set (candidate_mappings G1 G2)"
  shows "set m \<subseteq> set (nodes G1) \<times> set (nodes G2)"
proof -
  from assms obtain p where p: "mset p = mset (nodes G1)" and m: "m = zip p (nodes G2)"
    by (auto simp: candidate_mappings_def set_arrangements split: if_splits)
  have "set p = set (nodes G1)" using p by (rule mset_eq_setD)
  then show ?thesis unfolding m by (auto dest: set_zip_leftD set_zip_rightD)
qed

lemma passes_node_match_total:
  assumes "m \<in> set (candidate_mappings G1 G2)"
    and "unlabelled G1 \<or> unlabelled G2 \<or> (fully_labelled G1 \<and> fully_labelled G2)"
    and nm: "nm = (if get_node_attributes G1 = [] \<or> get_node_attributes G2 = [] then None
                   else Some match_atomicnum)"
  shows "passes_node_match nm G1 G2 m = Inr (\<forall>(u, v)\<in>set m. compatible G1 G2 u v)"
proof (cases "unlabelled G1 \<or> unlabelled G2")
  case True
  then show ?thesis
    by (auto simp: nm passes_node_match_def compatible_def unlabelled_def)
next
  case False
  with assms(2) have fl: "fully_labelled G1" "fully_labelled G2" by auto
  have sub: "set m \<subseteq> set (nodes G1) \<times> set (nodes G2)"
    using assms(1) by (rule candidate_nodes)
  have "\<forall>x\<in>set m. (\<lambda>(u, v). match_atomicnum (atomicnum G1 u) (atomicnum G2 v)) x
           = Inr ((\<lambda>(u, v). compatible G1 G2 u v) x)"
  proof
    fix x assume "x \<in> set m"
    then obtain u v where x: "x = (u, v)" and "u \<in> set (nodes G1)" "v \<in> set (nodes G2)"
      using sub by auto
    then obtain a b where "atomicnum G1 u = Some a" "atomicnum G2 v = Some b"
      using fl unfolding fully_labelled_def by blast
    then show "(\<lambda>(u, v). match_atomicnum (atomicnum G1 u) (atomicnum G2 v)) x
           = Inr ((\<lambda>(u, v). compatible G1 G2 u v) x)"
      using False by (simp add: x match_atomicnum_def compatible_def)
  qed
  then have "all_err (\<lambda>(u, v). match_atomicnum (atomicnum G1 u) (atomicnum G2 v)) m
           = Inr (\<forall>x\<in>set m. (\<lambda>(u, v). compatible G1 G2 u v) x)"
    by (rule all_err_total)
  then show ?thesis using False by (simp add: nm passes_node_match_def unlabelled_def)
qed

lemma isomorphisms_iter_total:
  assumes "unlabelled G1 \<or> unlabelled G2 \<or> (fully_labelled G1 \<and> fully_labelled G2)"
  shows "isomorphisms_iter G1 G2
           (if get_node_attributes G1 = [] \<or> get_node_attributes G2 = [] then None
            else Some match_atomicnum)
         = Inr (filter (good_mapping G1 G2) (candidate_mappings G1 G2))"
proof -
  define nm where "nm = (if get_node_attributes G1 = [] \<or> get_node_attributes G2 = [] then None
            else Some match_atomicnum)"
  have pm: "\<And>m. m \<in> set (candidate_mappings G1 G2) \<Longrightarrow>
          passes_node_match nm G1 G2 m = Inr (\<forall>(u, v)\<in>set m. compatible G1 G2 u v)"
    by (rule passes_node_match_total [OF _ assms nm_def])
  have "\<forall>m\<in>set (candidate_mappings G1 G2).
          (if keeps_edges G1 G2 m then passes_node_match nm G1 G2 m else Inr False)
          = Inr (good_mapping G1 G2 m)"
    by (simp add: pm good_mapping_def)
  then have "filter_err (\<lambda>m. if keeps_edges G1 G2 m then passes_node_match nm G1 G2 m else Inr False)
               (candidate_mappings G1 G2)
             = Inr (filter (good_mapping G1 G2) (candidate_mappings G1 G2))"
    by (rule filter_err_total)
  then show ?thesis unfolding isomorphisms_iter_def nm_def .
qed

lemma match_graphs_total:
  assumes "unlabelled G1 \<or> unlabelled G2 \<or> (fully_labelled G1 \<and> fully_labelled G2)"
  shows "snd (match_graphs G1 G2) =
           (if filter (good_mapping G1 G2) (candidate_mappings G1 G2) = [] then Inl ValueError
            else Inr (map (\<lambda>m. (map fst m, map snd m))
                       (filter (good_mapping G1 G2) (candidate_mappings G1 G2))))"
  using isomorphisms_iter_total [OF assms]
  by (simp add: match_graphs_def is_isomorphic_def Let_def)

lemma match_graphs_warnings:
  "fst (match_graphs G1 G2) = (if unlabelled G1 \<or> unlabelled G2 then [NoAtomicNumberWarning] else [])"
  by (simp add: match_graphs_def Let_def unlabelled_def)

lemma zip_unique_right:
  assumes "distinct p" "length p = length ns" "(u, v) \<in> set (zip p ns)" "(u, v') \<in> set (zip p ns)"
  shows "v = v'"
proof -
  from assms(3) obtain i where i: "i < length p" "p ! i = u" "ns ! i = v"
    by (auto simp: set_zip)
  from assms(4) obtain j where j: "j < length p" "p ! j = u" "ns ! j = v'"
    by (auto simp: set_zip)
  have "i = j" using nth_eq_iff_index_eq [OF assms(1) i(1) j(1)] i j by simp
  then show ?thesis using i j by simp
qed

lemma zip_unique_left:
  assumes "distinct ns" "length p = length ns" "(u, v) \<in> set (zip p ns)" "(u', v) \<in> set (zip p ns)"
  shows "u = u'"
proof -
  from assms(3) obtain i where i: "i < length ns" "p ! i = u" "ns ! i = v"
    using assms(2) by (auto simp: set_zip)
  from assms(4) obtain j where j: "j < length ns" "p ! j = u'" "ns ! j = v"
    using assms(2) by (auto simp: set_zip)
  have "i = j" using nth_eq_iff_index_eq [OF assms(1) i(1) j(1)] i j by simp
  then show ?thesis using i j by simp
qed

lemma zip_map_self: "zip (map g xs) xs = map (\<lambda>v. (g v, v)) xs"
  by (induction xs) simp_all

lemma zip_total_left:
  assumes "length p = length ns" "u \<in> set p"
  shows "\<exists>v. (u, v) \<in> set (zip p ns)"
proof -
  from assms(2) obtain i where "i < length p" "p ! i = u" by (auto simp: in_set_conv_nth)
  then have "(u, ns ! i) \<in> set (zip p ns)" using assms(1) by (auto simp: set_zip)
  then show ?thesis ..
qed

lemma zip_total_right:
  assumes "length p = length ns" "v \<in> set ns"
  shows "\<exists>u. (u, v) \<in> set (zip p ns)"
proof -
  from assms(2) obtain i where "i < length ns" "ns ! i = v" by (auto simp: in_set_conv_nth)
  then have "(p ! i, v) \<in> set (zip p ns)" using assms(1) by (auto simp: set_zip)
  then show ?thesis ..
qed

lemma candidate_is_isomorphism:
  assumes m: "m \<in> set (candidate_mappings G1 G2)"
    and good: "good_mapping G1 G2 m"
    and d1: "distinct (nodes G1)" and d2: "distinct (nodes G2)"
  shows "is_isomorphism G1 G2 (set m)"
proof -
  from m obtain p where p: "mset p = mset (nodes G1)" and mz: "m = zip p (nodes G2)"
    and len: "length (nodes G1) = length (nodes G2)"
    by (auto simp: candidate_mappings_def set_arrangements split: if_splits)
  have sp: "set p = set (nodes G1)" using p by (rule mset_eq_setD)
  have dp: "distinct p" using p d1 by (metis mset_eq_imp_distinct_iff)
  have lp: "length p = length (nodes G2)" using p len by (metis mset_eq_length)
  have 1: "set m \<subseteq> set (nodes G1) \<times> set (nodes G2)" using m by (rule candidate_nodes)
  have 2: "\<forall>u\<in>set (nodes G1). \<exists>!v. (u, v) \<in> set m"
    unfolding mz using zip_total_left [OF lp] zip_unique_right [OF dp lp] sp by blast
  have 3: "\<forall>v\<in>set (nodes G2). \<exists>!u. (u, v) \<in> set m"
    unfolding mz using zip_total_right [OF lp] zip_unique_left [OF d2 lp] by blast
  show ?thesis
    unfolding is_isomorphism_def using 1 2 3 good
    by (simp add: good_mapping_def keeps_edges_def)
qed

lemma isomorphism_is_candidate:
  assumes iso: "is_isomorphism G1 G2 M"
    and d1: "distinct (nodes G1)" and d2: "distinct (nodes G2)"
  shows "\<exists>m\<in>set (candidate_mappings G1 G2). set m = M \<and> good_mapping G1 G2 m"
proof -
  from iso have sub: "M \<subseteq> set (nodes G1) \<times> set (nodes G2)"
    and ex1: "\<And>u. u \<in> set (nodes G1) \<Longrightarrow> \<exists>!v. (u, v) \<in> M"
    and ex2: "\<And>v. v \<in> set (nodes G2) \<Longrightarrow> \<exists>!u. (u, v) \<in> M"
    and ed: "\<forall>(u, v)\<in>M. \<forall>(u', v')\<in>M. has_edge G1 u u' = has_edge G2 v v'"
    and co: "\<forall>(u, v)\<in>M. compatible G1 G2 u v"
    by (auto simp: is_isomorphism_def)
  define g where "g v = (THE u. (u, v) \<in> M)" for v
  have g: "(g v, v) \<in> M" if "v \<in> set (nodes G2)" for v
    unfolding g_def using ex2 [OF that] by (rule theI')
  have g_eq: "g v = u" if "(u, v) \<in> M" for u v
  proof -
    from that sub have "v \<in> set (nodes G2)" by auto
    then show ?thesis using ex2 [of v] g [of v] that by blast
  qed
  define p where "p = map g (nodes G2)"
  define m where "m = zip p (nodes G2)"
  have m_map: "m = map (\<lambda>v. (g v, v)) (nodes G2)"
    unfolding m_def p_def by (rule zip_map_self)
  have set_m: "set m = M"
  proof
    show "set m \<subseteq> M" unfolding m_map using g by auto
    show "M \<subseteq> set m"
    proof
      fix x assume x: "x \<in> M"
      obtain u v where uv: "x = (u, v)" by (cases x)
      with x sub have "v \<in> set (nodes G2)" by auto
      moreover have "g v = u" using x uv by (simp add: g_eq)
      ultimately show "x \<in> set m" unfolding m_map uv by auto
    qed
  qed
  have inj: "inj_on g (set (nodes G2))"
  proof (rule inj_onI)
    fix v v' assume v: "v \<in> set (nodes G2)" and v': "v' \<in> set (nodes G2)" and e: "g v = g v'"
    have a: "(g v, v) \<in> M" using g [OF v] .
    have b: "(g v, v') \<in> M" using g [OF v'] e by simp
    from a sub have "g v \<in> set (nodes G1)" by auto
    then show "v = v'" using ex1 a b by blast
  qed
  have dp: "distinct p" unfolding p_def using d2 inj by (simp add: distinct_map)
  have sp: "set p = set (nodes G1)"
  proof
    show "set p \<subseteq> set (nodes G1)" unfolding p_def using g sub by auto
    show "set (nodes G1) \<subseteq> set p"
    proof
      fix u assume "u \<in> set (nodes G1)"
      then obtain v where uv: "(u, v) \<in> M" using ex1 by blast
      with sub have "v \<in> set (nodes G2)" by auto
      moreover have "g v = u" using uv by (rule g_eq)
      ultimately show "u \<in> set p" unfolding p_def by auto
    qed
  qed
  have mp: "mset p = mset (nodes G1)"
    using dp d1 sp by (simp add: set_eq_iff_mset_eq_distinct)
  then have "length p = length (nodes G1)" by (rule mset_eq_length)
  then have len: "length (nodes G1) = length (nodes G2)" by (simp add: p_def)
  have cand: "m \<in> set (candidate_mappings G1 G2)"
    unfolding candidate_mappings_def m_def using len mp by (simp add: set_arrangements)
  have "good_mapping G1 G2 m"
    unfolding good_mapping_def keeps_edges_def set_m using ed co by simp
  with cand set_m show ?thesis by blast
qed

lemma mapping_set_items: "mapping_set (map fst m, map snd m) = set m"
  by (simp add: mapping_set_def zip_map_fst_snd)

lemma good_candidates_sets:
  assumes "distinct (nodes G1)" "distinct (nodes G2)"
  shows "set ` set (filter (good_mapping G1 G2) (candidate_mappings G1 G2))
           = {M. is_isomorphism G1 G2 M}"
  using candidate_is_isomorphism [OF _ _ assms] isomorphism_is_candidate [OF _ assms]
  by (auto simp: image_iff)

lemma has_edge_erase [simp]: "has_edge (erase_labels G) = has_edge G"
  by (simp add: fun_eq_iff has_edge_def erase_labels_def)

lemma nodes_erase [simp]: "nodes (erase_labels G) = nodes G"
  by (simp add: erase_labels_def)

lemma unlabelled_erase [simp]: "unlabelled (erase_labels G)"
  by (simp add: unlabelled_iff erase_labels_def)

lemma candidate_mappings_erase:
  "candidate_mappings (erase_labels G1) (erase_labels G2) = candidate_mappings G1 G2"
  by (simp add: candidate_mappings_def)

lemma keeps_edges_erase:
  "keeps_edges (erase_labels G1) (erase_labels G2) = keeps_edges G1 G2"
  by (simp add: fun_eq_iff keeps_edges_def)

lemma good_mapping_unlabelled:
  "unlabelled G1 \<or> unlabelled G2 \<Longrightarrow> good_mapping G1 G2 m = keeps_edges G1 G2 m"
  by (auto simp: good_mapping_def compatible_def)

lemma good_mapping_erase:
  "unlabelled G1 \<or> unlabelled G2 \<Longrightarrow>
     good_mapping (erase_labels G1) (erase_labels G2) = good_mapping G1 G2"
  by (simp add: fun_eq_iff good_mapping_unlabelled keeps_edges_erase)

lemma match_graphs_result_cases:
  assumes "distinct (nodes G1)" "distinct (nodes G2)"
    and "unlabelled G1 \<or> unlabelled G2 \<or> (fully_labelled G1 \<and> fully_labelled G2)"
  shows "(\<not> (\<exists>M. is_isomorphism G1 G2 M) \<and> snd (match_graphs G1 G2) = Inl ValueError) \<or>
         ((\<exists>M. is_isomorphism G1 G2 M) \<and>
          (\<exists>ms. snd (match_graphs G1 G2) = Inr ms \<and>
                mapping_set ` set ms = {M. is_isomorphism G1 G2 M}))"
proof -
  let ?good = "filter (good_mapping G1 G2) (candidate_mappings G1 G2)"
  have sets: "set ` set ?good = {M. is_isomorphism G1 G2 M}"
    using assms(1,2) by (rule good_candidates_sets)
  have res: "snd (match_graphs G1 G2) =
               (if ?good = [] then Inl ValueError
                else Inr (map (\<lambda>m. (map fst m, map snd m)) ?good))"
    using assms(3) by (rule match_graphs_total)
  have img: "mapping_set ` set (map (\<lambda>m. (map fst m, map snd m)) ?good) = set ` set ?good"
    by (simp add: image_image mapping_set_items)
  show ?thesis
  proof (cases "?good = []")
    case True
    then have "{M. is_isomorphism G1 G2 M} = {}" using sets by simp
    then show ?thesis using res True by auto
  next
    case False
    then have "set ?good \<noteq> {}" by (simp only: set_empty not_False_eq_True)
    then have "set ` set ?good \<noteq> {}" by (simp only: image_is_empty not_False_eq_True)
    then have "\<exists>M. is_isomorphism G1 G2 M" using sets by auto
    then show ?thesis using res False img sets by auto
  qed
qed

text \<open>
  C5. For two graphs whose nodes are all labelled, or of which one carries no label at
  all, \<open>match_graphs\<close> raises an error exactly when the graphs are not isomorphic under
  the applicable node-compatibility predicate; when it returns, the pairs of index
  sequences it returns stand for exactly the isomorphism mappings of the two graphs.
\<close>

theorem match_graphs_raises_iff_not_isomorphic:
  assumes "distinct (nodes G1)" and "distinct (nodes G2)"
    and "unlabelled G1 \<or> unlabelled G2 \<or> (fully_labelled G1 \<and> fully_labelled G2)"
  shows "((\<exists>e. snd (match_graphs G1 G2) = Inl e) \<longleftrightarrow> \<not> (\<exists>M. is_isomorphism G1 G2 M)) \<and>
         (\<forall>ms. snd (match_graphs G1 G2) = Inr ms \<longrightarrow>
                mapping_set ` set ms = {M. is_isomorphism G1 G2 M})"
  using match_graphs_result_cases [OF assms] by auto

lemma match_graphs_g_pair:
  "match_graphs g_pair g_pair = ([], Inr [([0, 1], [0, 1]), ([1, 0], [0, 1])])"
  by (simp add: match_graphs_def g_pair_def get_node_attributes_def is_isomorphic_def
      isomorphisms_iter_def candidate_mappings_def keeps_edges_def has_edge_def
      passes_node_match_def match_atomicnum_def Let_def)

theorem match_graphs_raises_iff_not_isomorphic_witness:
  "distinct (nodes g_pair) \<and> fully_labelled g_pair \<and>
   snd (match_graphs g_pair g_pair) = Inr [([0, 1], [0, 1]), ([1, 0], [0, 1])] \<and>
   mapping_set ` set [([0, 1], [0, 1]), ([1, 0], [0, 1])] = {M. is_isomorphism g_pair g_pair M} \<and>
   (\<exists>M. is_isomorphism g_pair g_pair M)"
proof -
  have d: "distinct (nodes g_pair)" by (simp add: g_pair_def)
  have f: "fully_labelled g_pair" by (simp add: fully_labelled_def g_pair_def)
  have l: "unlabelled g_pair \<or> unlabelled g_pair \<or> (fully_labelled g_pair \<and> fully_labelled g_pair)"
    using f by simp
  have r: "snd (match_graphs g_pair g_pair) = Inr [([0, 1], [0, 1]), ([1, 0], [0, 1])]"
    by (simp add: match_graphs_g_pair)
  show ?thesis
    using match_graphs_raises_iff_not_isomorphic [OF d d l] d f r by auto
qed

section \<open>Graphs without labels\<close>

lemma match_graphs_erase:
  assumes "unlabelled G1 \<or> unlabelled G2"
  shows "snd (match_graphs G1 G2) = snd (match_graphs (erase_labels G1) (erase_labels G2))"
proof -
  have 1: "unlabelled G1 \<or> unlabelled G2 \<or> (fully_labelled G1 \<and> fully_labelled G2)"
    using assms by auto
  have 2: "unlabelled (erase_labels G1) \<or> unlabelled (erase_labels G2) \<or>
        (fully_labelled (erase_labels G1) \<and> fully_labelled (erase_labels G2))"
    by simp
  show ?thesis
    unfolding match_graphs_total [OF 1] match_graphs_total [OF 2]
    by (simp add: candidate_mappings_erase good_mapping_erase [OF assms])
qed

text \<open>
  C9. When at least one of the two graphs carries no atomic number, \<open>match_graphs\<close>
  does not fail for want of labels: it warns, and its result is that of matching the
  two graphs with all labels erased (structure only, no label check). It returns the
  mappings exactly when the graphs are isomorphic in structure; the only error left
  is the ValueError for graphs that are not.
\<close>

theorem match_graphs_without_labels:
  assumes "unlabelled G1 \<or> unlabelled G2"
    and "distinct (nodes G1)" and "distinct (nodes G2)"
  shows "fst (match_graphs G1 G2) = [NoAtomicNumberWarning] \<and>
         snd (match_graphs G1 G2) = snd (match_graphs (erase_labels G1) (erase_labels G2)) \<and>
         (snd (match_graphs G1 G2) = Inl ValueError \<or> (\<exists>ms. snd (match_graphs G1 G2) = Inr ms)) \<and>
         ((\<exists>ms. snd (match_graphs G1 G2) = Inr ms) \<longleftrightarrow>
            (\<exists>M. is_isomorphism (erase_labels G1) (erase_labels G2) M))"
proof -
  have w: "fst (match_graphs G1 G2) = [NoAtomicNumberWarning]"
    using assms(1) by (simp add: match_graphs_warnings)
  have e: "snd (match_graphs G1 G2) = snd (match_graphs (erase_labels G1) (erase_labels G2))"
    using assms(1) by (rule match_graphs_erase)
  have d1: "distinct (nodes (erase_labels G1))" and d2: "distinct (nodes (erase_labels G2))"
    using assms(2,3) by simp_all
  have l: "unlabelled (erase_labels G1) \<or> unlabelled (erase_labels G2) \<or>
        (fully_labelled (erase_labels G1) \<and> fully_labelled (erase_labels G2))"
    by simp
  show ?thesis
    using match_graphs_result_cases [OF d1 d2 l] w e by auto
qed

lemma match_graphs_g_co_g_edge:
  "match_graphs g_co g_edge = ([NoAtomicNumberWarning], Inr [([0, 1], [0, 1]), ([1, 0], [0, 1])])"
  by (simp add: match_graphs_def g_co_def g_edge_def get_node_attributes_def is_isomorphic_def
      isomorphisms_iter_def candidate_mappings_def keeps_edges_def has_edge_def
      passes_node_match_def Let_def)

lemma match_graphs_g_co_g_co:
  "match_graphs g_co g_co = ([], Inr [([0, 1], [0, 1])])"
  by (simp add: match_graphs_def g_co_def get_node_attributes_def is_isomorphic_def
      isomorphisms_iter_def candidate_mappings_def keeps_edges_def has_edge_def
      passes_node_match_def match_atomicnum_def Let_def)

theorem match_graphs_without_labels_witness:
  "unlabelled g_edge \<and> \<not> unlabelled g_co \<and>
   match_graphs g_co g_co = ([], Inr [([0, 1], [0, 1])]) \<and>
   fst (match_graphs g_co g_edge) = [NoAtomicNumberWarning] \<and>
   snd (match_graphs g_co g_edge) = Inr [([0, 1], [0, 1]), ([1, 0], [0, 1])] \<and>
   snd (match_graphs g_co g_edge) = snd (match_graphs (erase_labels g_co) (erase_labels g_edge)) \<and>
   (\<exists>M. is_isomorphism (erase_labels g_co) (erase_labels g_edge) M)"
proof -
  have u: "unlabelled g_edge" by (simp add: unlabelled_iff g_edge_def)
  have n: "\<not> unlabelled g_co" by (simp add: unlabelled_iff g_co_def)
  have d1: "distinct (nodes g_co)" by (simp add: g_co_def)
  have d2: "distinct (nodes g_edge)" by (simp add: g_edge_def)
  have r: "snd (match_graphs g_co g_edge) = Inr [([0, 1], [0, 1]), ([1, 0], [0, 1])]"
    by (simp add: match_graphs_g_co_g_edge)
  have uu: "unlabelled g_co \<or> unlabelled g_edge" using u by simp
  note t = match_graphs_without_labels [OF uu d1 d2]
  have e: "\<exists>M. is_isomorphism (erase_labels g_co) (erase_labels g_edge) M"
    using t r by blast
  show ?thesis
    using u n match_graphs_g_co_g_co t r e by (simp only: simp_thms)
qed

section \<open>Graphs from adjacency matrices\<close>











section \<open>The isomorphism-based RMSD uses one mapping\<close>

lemma store_ab_0: "store_ab 0 = [(0, 0, 0), (1, 0, 0)]"
  by (simp add: store_ab_def)

lemma store_ab_1: "store_ab (Suc 0) = [(1, 0, 0), (0, 0, 0)]"
  by (simp add: store_ab_def)

lemma rmsd_isomorphic_identity_ab:
  "fst (rmsd_isomorphic matcher_identity to_graph_pair store_ab mol_a mol_b False) = Inr (Num 1)"
  by (simp add: rmsd_isomorphic_def matcher_identity_def mol_a_def mol_b_def store_ab_0 store_ab_1
      len_mol_def take_rows_def sum_sq_diff_def sqnorm_def psub_def np_div_def Let_def)

lemma rmsd_isomorphic_identity_aa:
  "fst (rmsd_isomorphic matcher_identity to_graph_pair store_ab mol_a mol_a False) = Inr (Num 0)"
  by (simp add: rmsd_isomorphic_def matcher_identity_def mol_a_def store_ab_0
      len_mol_def take_rows_def sum_sq_diff_def sqnorm_def psub_def np_div_def Let_def)

lemma rmsd_isomorphic_swap_aa:
  "fst (rmsd_isomorphic matcher_swap to_graph_pair store_ab mol_a mol_a False) = Inr (Num 1)"
  by (simp add: rmsd_isomorphic_def matcher_swap_def mol_a_def store_ab_0
      len_mol_def take_rows_def sum_sq_diff_def sqnorm_def psub_def np_div_def Let_def)

lemma rmsd_isomorphic_swap_ab:
  "fst (rmsd_isomorphic matcher_swap to_graph_pair store_ab mol_a mol_b False) = Inr (Num 0)"
  by (simp add: rmsd_isomorphic_def matcher_swap_def mol_a_def mol_b_def store_ab_0 store_ab_1
      len_mol_def take_rows_def sum_sq_diff_def sqnorm_def psub_def np_div_def Let_def)

subsection \<open>The isomorphism mappings of the example graph\<close>

lemma g_pair_isomorphism_sets:
  "{M. is_isomorphism g_pair g_pair M} = {{(0, 0), (1, 1)}, {(1, 0), (0, 1)}}"
proof -
  have d: "distinct (nodes g_pair)" by (simp add: g_pair_def)
  have "fully_labelled g_pair" by (simp add: fully_labelled_def g_pair_def)
  then have l: "unlabelled g_pair \<or> unlabelled g_pair \<or> (fully_labelled g_pair \<and> fully_labelled g_pair)"
    by simp
  have r: "snd (match_graphs g_pair g_pair) = Inr [([0, 1], [0, 1]), ([1, 0], [0, 1])]"
    by (simp add: match_graphs_g_pair)
  from match_graphs_result_cases [OF d d l] r
  have "mapping_set ` set [([0, 1], [0, 1]), ([1, 0], [0, 1])] = {M. is_isomorphism g_pair g_pair M}"
    by auto
  then show ?thesis by (simp add: mapping_set_def)
qed

lemma g_pair_isomorphisms:
  "is_isomorphism g_pair g_pair {(0, 0), (1, 1)}"
  "is_isomorphism g_pair g_pair {(1, 0), (0, 1)}"
  using g_pair_isomorphism_sets by blast+

lemma candidates_ab:
  "candidate_rmsd (store_ab 0) (store_ab 1) 2 {(0, 0), (1, 1)} = 1"
  "candidate_rmsd (store_ab 0) (store_ab 1) 2 {(1, 0), (0, 1)} = 0"
  by (simp_all add: candidate_rmsd_def store_ab_0 store_ab_1 euclid_def)

lemma candidates_aa:
  "candidate_rmsd (store_ab 0) (store_ab 0) 2 {(0, 0), (1, 1)} = 0"
  "candidate_rmsd (store_ab 0) (store_ab 0) 2 {(1, 0), (0, 1)} = 1"
  by (simp_all add: candidate_rmsd_def store_ab_0 euclid_def)

lemma min_candidate_ab:
  "min_candidate_rmsd (store_ab 0) (store_ab 1) 2 g_pair g_pair = 0"
  unfolding min_candidate_rmsd_def g_pair_isomorphism_sets
  by (simp add: candidate_rmsd_def store_ab_0 store_ab_1 euclid_def)

lemma min_candidate_aa:
  "min_candidate_rmsd (store_ab 0) (store_ab 0) 2 g_pair g_pair = 0"
  unfolding min_candidate_rmsd_def g_pair_isomorphism_sets
  by (simp add: candidate_rmsd_def store_ab_0 euclid_def)


subsection \<open>The value that is returned\<close>

lemma length_center_in_place: "length (center_in_place h m a) = length (h a)"
  by (simp add: center_in_place_def isub_def)

lemma np_sqrt_np_div:
  assumes "0 \<le> s" and "0 < n"
  shows "np_sqrt (np_div s n) = Num (sqrt (s / real n))"
proof -
  have "\<not> s / real n < 0" using assms by (simp add: not_less)
  then show ?thesis using assms(2) by (simp add: np_div_def)
qed

lemma zip_rows:
  "zip (map f (map fst mapping)) (map g (map snd mapping)) = map (\<lambda>(k, v). (f k, g v)) mapping"
  by (induction mapping) auto

lemma sum_sq_diff_mapping:
  assumes "distinct mapping"
  shows "sum_sq_diff (map (\<lambda>i. c1 ! i) (map fst mapping)) (map (\<lambda>i. c2 ! i) (map snd mapping))
           = (\<Sum>(k, v)\<in>set mapping. (euclid (c1 ! k) (c2 ! v))\<^sup>2)"
proof -
  have "sum_sq_diff (map (\<lambda>i. c1 ! i) (map fst mapping)) (map (\<lambda>i. c2 ! i) (map snd mapping))
          = sum_list (map (\<lambda>(k, v). (euclid (c1 ! k) (c2 ! v))\<^sup>2) mapping)"
    unfolding sum_sq_diff_def zip_rows by (simp add: comp_def split_def euclid_sq)
  also have "\<dots> = (\<Sum>(k, v)\<in>set mapping. (euclid (c1 ! k) (c2 ! v))\<^sup>2)"
    using assms by (rule sum_list_distinct_conv_sum_set)
  finally show ?thesis .
qed

lemma rmsd_isomorphic_value:
  assumes "length (atomicnums mol1) = length (atomicnums mol2)"
    and "length (h (coordinates mol1)) = length (h (coordinates mol2))"
    and "len_mol mol1 = N" and "0 < N"
    and "matcher (to_graph mol1) (to_graph mol2) = Inr mapping"
    and "distinct (map fst mapping)"
    and "\<forall>k\<in>set (map fst mapping). k < length (h (coordinates mol1))"
    and "\<forall>v\<in>set (map snd mapping). v < length (h (coordinates mol2))"
    and h': "h' = (if center then center_in_place (center_in_place h mol1) mol2 else h)"
  shows "rmsd_isomorphic matcher to_graph h mol1 mol2 center =
           (Inr (Num (candidate_rmsd (h' (coordinates mol1)) (h' (coordinates mol2)) N
                        (set mapping))), h')"
proof -
  let ?c1 = "h' (coordinates mol1)" and ?c2 = "h' (coordinates mol2)"
  let ?ks = "map fst mapping" and ?vs = "map snd mapping"
  have l1: "length ?c1 = length (h (coordinates mol1))"
    unfolding h' by (simp add: length_center_in_place)
  have l2: "length ?c2 = length (h (coordinates mol2))"
    unfolding h' by (simp add: length_center_in_place)
  have t1: "take_rows ?c1 ?ks = Inr (map (\<lambda>i. ?c1 ! i) ?ks)"
    using assms(7) l1 by (simp add: take_rows_def)
  have t2: "take_rows ?c2 ?vs = Inr (map (\<lambda>i. ?c2 ! i) ?vs)"
    using assms(8) l2 by (simp add: take_rows_def)
  have d: "distinct mapping" using assms(6) by (simp add: distinct_map)
  have nn: "0 \<le> sum_sq_diff (map (\<lambda>i. ?c1 ! i) ?ks) (map (\<lambda>i. ?c2 ! i) ?vs)"
    by (rule sum_sq_diff_nonneg)
  have v: "np_sqrt (np_div (sum_sq_diff (map (\<lambda>i. ?c1 ! i) ?ks) (map (\<lambda>i. ?c2 ! i) ?vs)) N)
             = Num (candidate_rmsd ?c1 ?c2 N (set mapping))"
    using np_sqrt_np_div [OF nn assms(4)]
    by (simp only: candidate_rmsd_def sum_sq_diff_mapping [OF d])
  have hh: "(if center then center_in_place (if center then center_in_place h mol1 else h) mol2
             else (if center then center_in_place h mol1 else h)) = h'"
    unfolding h' by simp
  show ?thesis
    unfolding rmsd_isomorphic_def Let_def hh
    using assms(1,2,3,5) t1 t2 v by simp
qed

lemma finite_isomorphisms: "finite {M. is_isomorphism G1 G2 M}"
proof (rule finite_subset)
  show "{M. is_isomorphism G1 G2 M} \<subseteq> Pow (set (nodes G1) \<times> set (nodes G2))"
    by (auto simp: is_isomorphism_def)
  show "finite (Pow (set (nodes G1) \<times> set (nodes G2)))" by simp
qed

lemma min_candidate_rmsd_le:
  assumes "is_isomorphism G1 G2 M"
  shows "min_candidate_rmsd c1 c2 n G1 G2 \<le> candidate_rmsd c1 c2 n M"
  unfolding min_candidate_rmsd_def
  using assms finite_isomorphisms [of G1 G2] by (intro Min_le) auto

lemma isomorphism_in_range:
  assumes "is_isomorphism G1 G2 (set mapping)"
    and "set (nodes G1) = {..<N}" and "set (nodes G2) = {..<N}"
  shows "(\<forall>k\<in>set (map fst mapping). k < N) \<and> (\<forall>v\<in>set (map snd mapping). v < N)"
proof -
  from assms(1) have "set mapping \<subseteq> set (nodes G1) \<times> set (nodes G2)"
    by (simp add: is_isomorphism_def)
  then show ?thesis using assms(2,3) by auto
qed

text \<open>
  C1, as stated, fails. The two example molecules have the graph of two bonded carbon
  atoms, which has two isomorphism mappings onto itself, the identity and the swap.
  \<open>rmsd_isomorphic\<close> uses the one mapping its matcher hands over: with the identity it
  returns 1 for the pair whose minimum over both mappings is 0, and with the swap it
  returns 1 for the pair of a molecule with itself, whose minimum is 0 as well.
\<close>

theorem rmsd_isomorphic_not_minimum_counterexample:
  "snd (match_graphs g_pair g_pair) = Inr [([0, 1], [0, 1]), ([1, 0], [0, 1])] \<and>
   fst (rmsd_isomorphic matcher_identity to_graph_pair store_ab mol_a mol_b False) = Inr (Num 1) \<and>
   min_candidate_rmsd (store_ab 0) (store_ab 1) 2 g_pair g_pair = 0 \<and>
   fst (rmsd_isomorphic matcher_swap to_graph_pair store_ab mol_a mol_a False) = Inr (Num 1) \<and>
   min_candidate_rmsd (store_ab 0) (store_ab 0) 2 g_pair g_pair = 0"
  using match_graphs_g_pair rmsd_isomorphic_identity_ab min_candidate_ab
    rmsd_isomorphic_swap_aa min_candidate_aa
  by (simp only: snd_conv simp_thms)

text \<open>
  C1, amended. For every pair of molecules of N atoms whose labelled graphs, on the
  vertices \<open>0..N-1\<close>, are isomorphic, \<open>rmsd_isomorphic\<close> returns the candidate RMSD of
  the one isomorphism mapping that its matcher returns, computed on the two coordinate
  sets as the call leaves them (centred in place when \<open>center\<close> is set, untouched
  otherwise). That value is at least the minimum of the candidate RMSD over all
  isomorphism mappings between the two graphs; it is not in general equal to it.
\<close>

theorem rmsd_isomorphic_single_mapping:
  assumes "length (atomicnums mol1) = length (atomicnums mol2)"
    and "length (h (coordinates mol1)) = N" and "length (h (coordinates mol2)) = N"
    and "len_mol mol1 = N" and "0 < N"
    and "set (nodes (to_graph mol1)) = {..<N}" and "set (nodes (to_graph mol2)) = {..<N}"
    and "matcher (to_graph mol1) (to_graph mol2) = Inr mapping"
    and "distinct (map fst mapping)"
    and "is_isomorphism (to_graph mol1) (to_graph mol2) (set mapping)"
  shows "let h' = (if center then center_in_place (center_in_place h mol1) mol2 else h);
             c1 = h' (coordinates mol1); c2 = h' (coordinates mol2)
         in rmsd_isomorphic matcher to_graph h mol1 mol2 center =
              (Inr (Num (candidate_rmsd c1 c2 N (set mapping))), h') \<and>
            min_candidate_rmsd c1 c2 N (to_graph mol1) (to_graph mol2)
              \<le> candidate_rmsd c1 c2 N (set mapping)"
proof -
  define h' where "h' = (if center then center_in_place (center_in_place h mol1) mol2 else h)"
  have r: "(\<forall>k\<in>set (map fst mapping). k < N) \<and> (\<forall>v\<in>set (map snd mapping). v < N)"
    using assms(10,6,7) by (rule isomorphism_in_range)
  have a: "length (h (coordinates mol1)) = length (h (coordinates mol2))"
    using assms(2,3) by simp
  have k: "\<forall>k\<in>set (map fst mapping). k < length (h (coordinates mol1))"
    using r assms(2) by simp
  have v: "\<forall>v\<in>set (map snd mapping). v < length (h (coordinates mol2))"
    using r assms(3) by simp
  have 1: "rmsd_isomorphic matcher to_graph h mol1 mol2 center =
           (Inr (Num (candidate_rmsd (h' (coordinates mol1)) (h' (coordinates mol2)) N
                        (set mapping))), h')"
    using assms(1) a assms(4,5,8,9) k v h'_def by (rule rmsd_isomorphic_value)
  have 2: "min_candidate_rmsd (h' (coordinates mol1)) (h' (coordinates mol2)) N
             (to_graph mol1) (to_graph mol2)
           \<le> candidate_rmsd (h' (coordinates mol1)) (h' (coordinates mol2)) N (set mapping)"
    using assms(10) by (rule min_candidate_rmsd_le)
  show ?thesis
    unfolding Let_def h'_def [symmetric] using 1 2 by (rule conjI)
qed

lemma centred_store_ab:
  "center_in_place (center_in_place store_ab mol_a) mol_b 0 = [(- (1 / 2), 0, 0), (1 / 2, 0, 0)]"
  "center_in_place (center_in_place store_ab mol_a) mol_b (Suc 0) = [(1 / 2, 0, 0), (- (1 / 2), 0, 0)]"
  by (simp_all add: center_in_place_def isub_def center_of_geometry_def mol_a_def mol_b_def
      store_ab_def psub_def Let_def)

theorem rmsd_isomorphic_single_mapping_witness:
  "(let h' = (if True then center_in_place (center_in_place store_ab mol_a) mol_b else store_ab);
        c1 = h' (coordinates mol_a); c2 = h' (coordinates mol_b)
    in rmsd_isomorphic matcher_swap_sorted to_graph_pair store_ab mol_a mol_b True =
         (Inr (Num (candidate_rmsd c1 c2 2 (set [(0, 1), (1, 0)]))), h') \<and>
       min_candidate_rmsd c1 c2 2 (to_graph_pair mol_a) (to_graph_pair mol_b)
         \<le> candidate_rmsd c1 c2 2 (set [(0, 1), (1, 0)])) \<and>
   fst (rmsd_isomorphic matcher_swap_sorted to_graph_pair store_ab mol_a mol_b True) = Inr (Num 0)"
proof -
  have 1: "length (atomicnums mol_a) = length (atomicnums mol_b)"
    by (simp add: mol_a_def mol_b_def)
  have 2: "length (store_ab (coordinates mol_a)) = 2" by (simp add: mol_a_def store_ab_def)
  have 3: "length (store_ab (coordinates mol_b)) = 2" by (simp add: mol_b_def store_ab_def)
  have 4: "len_mol mol_a = 2" by (simp add: len_mol_def mol_a_def)
  have 5: "0 < (2::nat)" by simp
  have 6: "set (nodes (to_graph_pair mol_a)) = {..<2}"
    by (auto simp: to_graph_pair_def g_pair_def)
  have 7: "set (nodes (to_graph_pair mol_b)) = {..<2}"
    by (auto simp: to_graph_pair_def g_pair_def)
  have 8: "matcher_swap_sorted (to_graph_pair mol_a) (to_graph_pair mol_b) = Inr [(0, 1), (1, 0)]"
    by (simp add: matcher_swap_sorted_def)
  have 9: "distinct (map fst [(0::nat, 1::nat), (1, 0)])" by simp
  have s: "set [(0::nat, 1::nat), (1, 0)] = {(1, 0), (0, 1)}" by auto
  have 10: "is_isomorphism (to_graph_pair mol_a) (to_graph_pair mol_b) (set [(0, 1), (1, 0)])"
    unfolding s to_graph_pair_def by (rule g_pair_isomorphisms(2))
  note t = rmsd_isomorphic_single_mapping
             [of mol_a mol_b store_ab 2 to_graph_pair matcher_swap_sorted "[(0, 1), (1, 0)]" True,
              OF 1 2 3 4 5 6 7 8 9 10]
  have c: "candidate_rmsd (center_in_place (center_in_place store_ab mol_a) mol_b (coordinates mol_a))
             (center_in_place (center_in_place store_ab mol_a) mol_b (coordinates mol_b)) 2
             (set [(0, 1), (1, 0)]) = 0"
  proof -
    have ca: "coordinates mol_a = 0" by (simp add: mol_a_def)
    have cb: "coordinates mol_b = Suc 0" by (simp add: mol_b_def)
    show ?thesis
      unfolding ca cb centred_store_ab by (simp add: candidate_rmsd_def euclid_def)
  qed
  have "fst (rmsd_isomorphic matcher_swap_sorted to_graph_pair store_ab mol_a mol_b True)
          = Inr (Num 0)"
    using t c by (simp add: Let_def)
  with t show ?thesis by (rule conjI)
qed

section \<open>Centring and the caller's arrays\<close>

lemma center_store_ab:
  "center_in_place store_ab mol_a 0 = [(- (1 / 2), 0, 0), (1 / 2, 0, 0)]"
  by (simp add: center_in_place_def isub_def center_of_geometry_def mol_a_def store_ab_def
      psub_def Let_def)

lemma snd_rmsd_dummy_center:
  "snd (rmsd_dummy store_ab mol_a mol_b True) = center_in_place (center_in_place store_ab mol_a) mol_b"
  by (simp add: rmsd_dummy_def Let_def mol_a_def mol_b_def np_all_eq_def store_ab_def)

lemma snd_rmsd_hungarian_center:
  "snd (rmsd_hungarian solve store_ab mol_a mol_b True)
     = center_in_place (center_in_place store_ab mol_a) mol_b"
  by (simp add: rmsd_hungarian_def Let_def mol_a_def mol_b_def store_ab_def)

lemma snd_rmsd_isomorphic_center:
  "snd (rmsd_isomorphic matcher to_graph store_ab mol_a mol_b True)
     = center_in_place (center_in_place store_ab mol_a) mol_b"
  by (simp add: rmsd_isomorphic_def Let_def mol_a_def mol_b_def store_ab_def
      split: sum.splits)

lemma center_other_address:
  "center_in_place (center_in_place store_ab mol_a) mol_b 0 = center_in_place store_ab mol_a 0"
  by (simp add: center_in_place_def isub_def mol_a_def mol_b_def)

text \<open>
  C2: the failing input. With \<open>center=True\<close> the centring of \<open>rmsd_dummy\<close>,
  \<open>rmsd_hungarian\<close> and \<open>rmsd_isomorphic\<close> is an in-place subtraction on the caller's
  coordinate array: after the call the first molecule's array, which held the points
  \<open>(0,0,0)\<close> and \<open>(1,0,0)\<close>, holds \<open>(-1/2,0,0)\<close> and \<open>(1/2,0,0)\<close>. \<open>rmsd_qcp\<close>
  centres a new array and leaves the store as it was.
\<close>

theorem centering_mutates_caller_array:
  "store_ab (coordinates mol_a) = [(0, 0, 0), (1, 0, 0)] \<and>
   snd (rmsd_dummy store_ab mol_a mol_b True) (coordinates mol_a)
     = [(- (1 / 2), 0, 0), (1 / 2, 0, 0)] \<and>
   snd (rmsd_hungarian solve store_ab mol_a mol_b True) (coordinates mol_a)
     = [(- (1 / 2), 0, 0), (1 / 2, 0, 0)] \<and>
   snd (rmsd_isomorphic matcher to_graph store_ab mol_a mol_b True) (coordinates mol_a)
     = [(- (1 / 2), 0, 0), (1 / 2, 0, 0)] \<and>
   snd (rmsd_qcp qcp_rmsd store_ab mol_a mol_b) = store_ab"
proof -
  have a: "coordinates mol_a = 0" by (simp add: mol_a_def)
  have 0: "store_ab (coordinates mol_a) = [(0, 0, 0), (1, 0, 0)]"
    by (simp add: a store_ab_def)
  have c: "center_in_place (center_in_place store_ab mol_a) mol_b (coordinates mol_a)
             = [(- (1 / 2), 0, 0), (1 / 2, 0, 0)]"
    unfolding a center_other_address by (rule center_store_ab)
  have q: "snd (rmsd_qcp qcp_rmsd store_ab mol_a mol_b) = store_ab"
    by (simp add: rmsd_qcp_def Let_def split: sum.splits)
  show ?thesis
    unfolding snd_rmsd_dummy_center snd_rmsd_hungarian_center snd_rmsd_isomorphic_center
    using 0 c q by simp
qed

section \<open>Relabelling by an automorphism\<close>

lemma relabelling_iff: "(i, w) \<in> relabelling p \<longleftrightarrow> i < length p \<and> w = p ! i"
proof
  assume "(i, w) \<in> relabelling p"
  then show "i < length p \<and> w = p ! i" by (auto simp: relabelling_def set_zip)
next
  assume "i < length p \<and> w = p ! i"
  then show "(i, w) \<in> relabelling p"
    unfolding relabelling_def in_set_zip by (intro exI [of _ i]) simp
qed

lemma isomorphism_compose:
  assumes M: "is_isomorphism G1 G2 M" and P: "is_isomorphism G2 G3 P"
    and lab: "unlabelled G2 \<Longrightarrow> unlabelled G1 \<or> unlabelled G3"
  shows "is_isomorphism G1 G3 (M O P)"
proof -
  from M have subM: "M \<subseteq> set (nodes G1) \<times> set (nodes G2)"
    and exM1: "\<And>u. u \<in> set (nodes G1) \<Longrightarrow> \<exists>!v. (u, v) \<in> M"
    and exM2: "\<And>v. v \<in> set (nodes G2) \<Longrightarrow> \<exists>!u. (u, v) \<in> M"
    and edM: "\<And>u v u' v'. (u, v) \<in> M \<Longrightarrow> (u', v') \<in> M \<Longrightarrow> has_edge G1 u u' = has_edge G2 v v'"
    and coM: "\<And>u v. (u, v) \<in> M \<Longrightarrow> compatible G1 G2 u v"
    unfolding is_isomorphism_def by blast+
  from P have subP: "P \<subseteq> set (nodes G2) \<times> set (nodes G3)"
    and exP1: "\<And>u. u \<in> set (nodes G2) \<Longrightarrow> \<exists>!v. (u, v) \<in> P"
    and exP2: "\<And>v. v \<in> set (nodes G3) \<Longrightarrow> \<exists>!u. (u, v) \<in> P"
    and edP: "\<And>u v u' v'. (u, v) \<in> P \<Longrightarrow> (u', v') \<in> P \<Longrightarrow> has_edge G2 u u' = has_edge G3 v v'"
    and coP: "\<And>u v. (u, v) \<in> P \<Longrightarrow> compatible G2 G3 u v"
    unfolding is_isomorphism_def by blast+
  have 1: "M O P \<subseteq> set (nodes G1) \<times> set (nodes G3)"
    using subM subP by auto
  have 2: "\<forall>u\<in>set (nodes G1). \<exists>!w. (u, w) \<in> M O P"
  proof
    fix u assume u: "u \<in> set (nodes G1)"
    from exM1 [OF u] obtain v where v: "(u, v) \<in> M" and vu: "\<And>v'. (u, v') \<in> M \<Longrightarrow> v' = v"
      by blast
    from v subM have "v \<in> set (nodes G2)" by auto
    from exP1 [OF this] obtain w where w: "(v, w) \<in> P" and wu: "\<And>w'. (v, w') \<in> P \<Longrightarrow> w' = w"
      by blast
    show "\<exists>!w. (u, w) \<in> M O P"
    proof
      show "(u, w) \<in> M O P" using v w by auto
    next
      fix w' assume "(u, w') \<in> M O P"
      then obtain v' where "(u, v') \<in> M" "(v', w') \<in> P" by auto
      then show "w' = w" using vu wu by blast
    qed
  qed
  have 3: "\<forall>w\<in>set (nodes G3). \<exists>!u. (u, w) \<in> M O P"
  proof
    fix w assume w: "w \<in> set (nodes G3)"
    from exP2 [OF w] obtain v where v: "(v, w) \<in> P" and vu: "\<And>v'. (v', w) \<in> P \<Longrightarrow> v' = v"
      by blast
    from v subP have "v \<in> set (nodes G2)" by auto
    from exM2 [OF this] obtain u where u: "(u, v) \<in> M" and uu: "\<And>u'. (u', v) \<in> M \<Longrightarrow> u' = u"
      by blast
    show "\<exists>!u. (u, w) \<in> M O P"
    proof
      show "(u, w) \<in> M O P" using u v by auto
    next
      fix u' assume "(u', w) \<in> M O P"
      then obtain v' where "(u', v') \<in> M" "(v', w) \<in> P" by auto
      then show "u' = u" using vu uu by blast
    qed
  qed
  have 4: "\<forall>(u, w)\<in>M O P. \<forall>(u', w')\<in>M O P. has_edge G1 u u' = has_edge G3 w w'"
  proof (clarify)
    fix u w u' w' v v'
    assume a: "(u, v) \<in> M" "(v, w) \<in> P" "(u', v') \<in> M" "(v', w') \<in> P"
    have "has_edge G1 u u' = has_edge G2 v v'" using a(1,3) by (rule edM)
    also have "\<dots> = has_edge G3 w w'" using a(2,4) by (rule edP)
    finally show "has_edge G1 u u' = has_edge G3 w w'" .
  qed
  have 5: "\<forall>(u, w)\<in>M O P. compatible G1 G3 u w"
  proof (clarify)
    fix u w v assume a: "(u, v) \<in> M" "(v, w) \<in> P"
    show "compatible G1 G3 u w"
      using coM [OF a(1)] coP [OF a(2)] lab by (auto simp: compatible_def)
  qed
  show ?thesis unfolding is_isomorphism_def using 1 2 3 4 5 by blast
qed


subsection \<open>Permutations of the atoms\<close>

lemma permutation_facts:
  assumes "mset p = mset [0..<N]"
  shows "length p = N" and "distinct p" and "set p = {..<N}"
proof -
  show "length p = N" using assms by (metis mset_eq_length length_upt diff_zero)
  show "distinct p" using assms by (metis mset_eq_imp_distinct_iff distinct_upt)
  have "set p = set [0..<N]" using assms by (rule mset_eq_setD)
  then show "set p = {..<N}" by auto
qed

lemma permutation_nth:
  assumes "mset p = mset [0..<N]" and "i < N"
  shows "p ! i < N"
  using permutation_facts [OF assms(1)] assms(2) by (metis lessThan_iff nth_mem)

lemma permutation_onto:
  assumes "mset p = mset [0..<N]" and "j < N"
  shows "\<exists>i<N. p ! i = j"
proof -
  have "j \<in> set p" using permutation_facts(3) [OF assms(1)] assms(2) by simp
  then obtain i where "i < length p" "p ! i = j" by (auto simp: in_set_conv_nth)
  then show ?thesis using permutation_facts(1) [OF assms(1)] by auto
qed

lemma permutation_inj:
  assumes "mset p = mset [0..<N]" and "i < N" and "j < N" and "p ! i = p ! j"
  shows "i = j"
  using permutation_facts(1,2) [OF assms(1)] assms(2,3,4)
  by (simp add: nth_eq_iff_index_eq)

lemma relabel_map_nth:
  assumes "length p = length xs"
  shows "relabel p xs = map (\<lambda>i. xs ! i) p"
  using assms by (intro nth_equalityI) (simp_all add: relabel_def)

lemma mset_relabel:
  assumes "mset p = mset [0..<length xs]"
  shows "mset (relabel p xs) = mset xs"
proof -
  have len: "length p = length xs" using assms by (rule permutation_facts(1))
  have "mset (relabel p xs) = image_mset (\<lambda>i. xs ! i) (mset p)"
    by (simp add: relabel_map_nth [OF len])
  also have "\<dots> = image_mset (\<lambda>i. xs ! i) (mset [0..<length xs])" by (simp add: assms)
  also have "\<dots> = mset (map (\<lambda>i. xs ! i) [0..<length xs])" by simp
  also have "\<dots> = mset xs" by (simp add: map_nth)
  finally show ?thesis .
qed

lemma sum_list_mset_cong:
  fixes f :: "'a \<Rightarrow> real"
  assumes "mset xs = mset ys"
  shows "sum_list (map f xs) = sum_list (map f ys)"
proof -
  have "sum_list (map f xs) = sum_mset (image_mset f (mset xs))"
    by (metis mset_map sum_mset_sum_list)
  also have "\<dots> = sum_mset (image_mset f (mset ys))" by (simp add: assms)
  also have "\<dots> = sum_list (map f ys)" by (metis mset_map sum_mset_sum_list)
  finally show ?thesis .
qed

lemma center_of_geometry_relabel:
  assumes "mset p = mset [0..<length c]"
  shows "center_of_geometry (relabel p c) = center_of_geometry c"
proof -
  have m: "mset (relabel p c) = mset c" using assms by (rule mset_relabel)
  have l: "length (relabel p c) = length c" by (simp add: relabel_def)
  show ?thesis
    unfolding center_of_geometry_def Let_def l
    by (simp only: sum_list_mset_cong [OF m])
qed

lemma relabel_nth: "i < length xs \<Longrightarrow> relabel p xs ! i = xs ! (p ! i)"
  by (simp add: relabel_def)

lemma centred_relabel:
  assumes "mset p = mset [0..<length c]"
  shows "centred (relabel p c) = relabel p (centred c)"
proof (rule nth_equalityI)
  show "length (centred (relabel p c)) = length (relabel p (centred c))"
    by (simp add: centred_def relabel_def)
next
  fix i assume "i < length (centred (relabel p c))"
  then have i: "i < length c" by (simp add: centred_def relabel_def)
  have pi: "p ! i < length c" using assms i by (rule permutation_nth)
  have "centred (relabel p c) ! i = psub (relabel p c ! i) (center_of_geometry (relabel p c))"
    using i by (simp add: centred_def relabel_def)
  also have "\<dots> = psub (c ! (p ! i)) (center_of_geometry c)"
    using i by (simp only: center_of_geometry_relabel [OF assms] relabel_nth)
  also have "\<dots> = relabel p (centred c) ! i"
    using i pi by (simp add: centred_def relabel_def)
  finally show "centred (relabel p c) ! i = relabel p (centred c) ! i" .
qed

subsection \<open>The relabelled graph\<close>

lemma relabelling_isomorphism:
  assumes rg: "relabelled_graph p G G'"
    and nodes: "set (nodes G) = {..<N}"
    and perm: "mset p = mset [0..<N]"
  shows "is_isomorphism G' G (relabelling p)"
proof -
  have len: "length p = N" using perm by (rule permutation_facts(1))
  from rg have n': "set (nodes G') = {..<N}"
    and ed: "\<And>i j. i < N \<Longrightarrow> j < N \<Longrightarrow> has_edge G' i j = has_edge G (p ! i) (p ! j)"
    and la: "\<And>i. i < N \<Longrightarrow> atomicnum G' i = atomicnum G (p ! i)"
    using nodes by (auto simp: relabelled_graph_def)
  have 1: "relabelling p \<subseteq> set (nodes G') \<times> set (nodes G)"
    using n' nodes len permutation_nth [OF perm] by (auto simp: relabelling_iff)
  have 2: "\<forall>u\<in>set (nodes G'). \<exists>!v. (u, v) \<in> relabelling p"
    using n' len by (auto simp: relabelling_iff)
  have 3: "\<forall>v\<in>set (nodes G). \<exists>!u. (u, v) \<in> relabelling p"
  proof
    fix v assume "v \<in> set (nodes G)"
    then have v: "v < N" using nodes by simp
    from permutation_onto [OF perm v] obtain i where i: "i < N" "p ! i = v" by blast
    show "\<exists>!u. (u, v) \<in> relabelling p"
    proof
      show "(i, v) \<in> relabelling p" using i len by (simp add: relabelling_iff)
    next
      fix u assume "(u, v) \<in> relabelling p"
      then have "u < N" "p ! u = v" using len by (simp_all add: relabelling_iff)
      then show "u = i" using i permutation_inj [OF perm] by simp
    qed
  qed
  have 4: "\<forall>(u, v)\<in>relabelling p. \<forall>(u', v')\<in>relabelling p. has_edge G' u u' = has_edge G v v'"
    using ed len by (auto simp: relabelling_iff)
  have 5: "\<forall>(u, v)\<in>relabelling p. compatible G' G u v"
    using la len by (auto simp: relabelling_iff compatible_def)
  show ?thesis unfolding is_isomorphism_def using 1 2 3 4 5 by blast
qed

lemma relabelled_unlabelled:
  assumes rg: "relabelled_graph p G G'"
    and nodes: "set (nodes G) = {..<N}"
    and perm: "mset p = mset [0..<N]"
    and u: "unlabelled G'"
  shows "unlabelled G"
  unfolding unlabelled_iff
proof
  fix j assume "j \<in> set (nodes G)"
  then have j: "j < N" using nodes by simp
  from permutation_onto [OF perm j] obtain i where i: "i < N" "p ! i = j" by blast
  have "atomicnum G' i = atomicnum G (p ! i)"
    using rg nodes i(1) by (simp add: relabelled_graph_def)
  moreover have "atomicnum G' i = None"
    using u rg nodes i(1) by (simp add: unlabelled_iff relabelled_graph_def)
  ultimately show "atomicnum G j = None" using i(2) by simp
qed

lemma automorphism_leaves_graph:
  assumes rg: "relabelled_graph p G G'"
    and nodes: "set (nodes G) = {..<N}"
    and len: "length p = N"
    and auto: "is_isomorphism G G (relabelling p)"
  shows "(\<forall>i<N. \<forall>j<N. has_edge G' i j = has_edge G i j) \<and>
         (\<forall>i<N. atomicnum G' i = atomicnum G i)"
proof -
  have mem: "\<And>i. i < N \<Longrightarrow> (i, p ! i) \<in> relabelling p"
    using len by (simp add: relabelling_iff)
  from auto have sub: "relabelling p \<subseteq> set (nodes G) \<times> set (nodes G)"
    and ed: "\<And>u v u' v'. (u, v) \<in> relabelling p \<Longrightarrow> (u', v') \<in> relabelling p \<Longrightarrow>
               has_edge G u u' = has_edge G v v'"
    and co: "\<And>u v. (u, v) \<in> relabelling p \<Longrightarrow> compatible G G u v"
    unfolding is_isomorphism_def by blast+
  have e: "\<forall>i<N. \<forall>j<N. has_edge G' i j = has_edge G i j"
  proof (intro allI impI)
    fix i j assume i: "i < N" and j: "j < N"
    have "has_edge G' i j = has_edge G (p ! i) (p ! j)"
      using rg nodes i j by (simp add: relabelled_graph_def)
    also have "\<dots> = has_edge G i j" using ed [OF mem [OF i] mem [OF j]] by simp
    finally show "has_edge G' i j = has_edge G i j" .
  qed
  have l: "\<forall>i<N. atomicnum G' i = atomicnum G i"
  proof (intro allI impI)
    fix i assume i: "i < N"
    have a: "atomicnum G' i = atomicnum G (p ! i)"
      using rg nodes i by (simp add: relabelled_graph_def)
    have pn: "p ! i \<in> set (nodes G)" using sub mem [OF i] by auto
    have "i \<in> set (nodes G)" using nodes i by simp
    then have "atomicnum G i = atomicnum G (p ! i)"
      using co [OF mem [OF i]] pn by (auto simp: compatible_def unlabelled_iff)
    then show "atomicnum G' i = atomicnum G i" using a by simp
  qed
  show ?thesis using e l by (rule conjI)
qed

subsection \<open>The candidate of the relabelled pair\<close>

lemma composed_image:
  assumes "\<forall>(k, v)\<in>M. v < length p"
  shows "M O relabelling p = (\<lambda>(k, v). (k, p ! v)) ` M"
  using assms by (auto simp: relabelling_iff relcomp_unfold image_iff)

lemma candidate_rmsd_relabel:
  assumes fin: "finite M"
    and rng: "\<forall>(k, v)\<in>M. v < length c2"
    and perm: "mset p = mset [0..<length c2]"
  shows "candidate_rmsd c1 (relabel p c2) n M = candidate_rmsd c1 c2 n (M O relabelling p)"
proof -
  have len: "length p = length c2" using perm by (rule permutation_facts(1))
  have rng': "\<forall>(k, v)\<in>M. v < length p" using rng len by simp
  have inj: "inj_on (\<lambda>(k, v). (k, p ! v)) M"
  proof (rule inj_onI)
    fix x y assume x: "x \<in> M" and y: "y \<in> M"
      and e: "(\<lambda>(k, v). (k, p ! v)) x = (\<lambda>(k, v). (k, p ! v)) y"
    obtain k v where xv: "x = (k, v)" by (cases x)
    obtain k' v' where yv: "y = (k', v')" by (cases y)
    have "v < length c2" "v' < length c2" using rng x y xv yv by auto
    moreover have "k = k'" "p ! v = p ! v'" using e xv yv by simp_all
    ultimately show "x = y" using permutation_inj [OF perm] xv yv by simp
  qed
  have "(\<Sum>(k, w)\<in>M O relabelling p. (euclid (c1 ! k) (c2 ! w))\<^sup>2)
          = (\<Sum>x\<in>(\<lambda>(k, v). (k, p ! v)) ` M. (\<lambda>(k, w). (euclid (c1 ! k) (c2 ! w))\<^sup>2) x)"
    by (simp only: composed_image [OF rng'])
  also have "\<dots> = (\<Sum>x\<in>M. (\<lambda>(k, w). (euclid (c1 ! k) (c2 ! w))\<^sup>2) ((\<lambda>(k, v). (k, p ! v)) x))"
    using inj by (simp add: sum.reindex)
  also have "\<dots> = (\<Sum>(k, v)\<in>M. (euclid (c1 ! k) (relabel p c2 ! v))\<^sup>2)"
    using rng by (intro sum.cong) (auto simp: relabel_nth)
  finally show ?thesis by (simp add: candidate_rmsd_def)
qed

lemma center_in_place_apply:
  "center_in_place h m a = (if a = coordinates m then centred (h a) else h a)"
  by (simp add: center_in_place_def isub_def centred_def)

lemma sum_list_centred:
  "sum_list (map fst (map (\<lambda>q. psub q g) c)) = sum_list (map fst c) - real (length c) * fst g"
  "sum_list (map (fst \<circ> snd) (map (\<lambda>q. psub q g) c))
     = sum_list (map (fst \<circ> snd) c) - real (length c) * fst (snd g)"
  "sum_list (map (snd \<circ> snd) (map (\<lambda>q. psub q g) c))
     = sum_list (map (snd \<circ> snd) c) - real (length c) * snd (snd g)"
  by (induction c) (auto simp: psub_def algebra_simps split: prod.splits)

lemma center_of_geometry_centred:
  assumes "c \<noteq> []"
  shows "center_of_geometry (centred c) = (0, 0, 0)"
proof -
  have n: "real (length c) \<noteq> 0" using assms by simp
  show ?thesis
    unfolding centred_def
    using n by (simp add: center_of_geometry_def [of "map _ c"] sum_list_centred Let_def
        center_of_geometry_def [of c] del: map_map)
qed

lemma centred_idem: "centred (centred c) = centred c"
proof (cases "c = []")
  case True
  then show ?thesis by (simp add: centred_def)
next
  case False
  have "centred (centred c) = map (\<lambda>q. psub q (0, 0, 0)) (centred c)"
    unfolding centred_def [of "centred c"] center_of_geometry_centred [OF False] ..
  also have "\<dots> = centred c"
    by (intro map_idI) (simp add: psub_def split: prod.splits)
  finally show ?thesis .
qed

lemma centred_store:
  "center_in_place (center_in_place h m1) m2 (coordinates m1) = centred (h (coordinates m1))"
  "center_in_place (center_in_place h m1) m2 (coordinates m2) = centred (h (coordinates m2))"
  by (simp_all add: center_in_place_apply centred_idem)

subsection \<open>The minimum over the isomorphism mappings\<close>

lemma isomorphism_converse:
  assumes "is_isomorphism G1 G2 M"
  shows "is_isomorphism G2 G1 (M\<inverse>)"
proof -
  from assms have sub: "M \<subseteq> set (nodes G1) \<times> set (nodes G2)"
    and ex1: "\<forall>u\<in>set (nodes G1). \<exists>!v. (u, v) \<in> M"
    and ex2: "\<forall>v\<in>set (nodes G2). \<exists>!u. (u, v) \<in> M"
    and ed: "\<forall>(u, v)\<in>M. \<forall>(u', v')\<in>M. has_edge G1 u u' = has_edge G2 v v'"
    and co: "\<forall>(u, v)\<in>M. compatible G1 G2 u v"
    unfolding is_isomorphism_def by blast+
  have 1: "M\<inverse> \<subseteq> set (nodes G2) \<times> set (nodes G1)" using sub by auto
  have 2: "\<forall>v\<in>set (nodes G2). \<exists>!u. (v, u) \<in> M\<inverse>" using ex2 by simp
  have 3: "\<forall>u\<in>set (nodes G1). \<exists>!v. (v, u) \<in> M\<inverse>" using ex1 by simp
  have 4: "\<forall>(v, u)\<in>M\<inverse>. \<forall>(v', u')\<in>M\<inverse>. has_edge G2 v v' = has_edge G1 u u'"
    using ed by fastforce
  have 5: "\<forall>(v, u)\<in>M\<inverse>. compatible G2 G1 v u"
    using co by (fastforce simp: compatible_def)
  show ?thesis unfolding is_isomorphism_def using 1 2 3 4 5 by blast
qed

lemma unlabelled_relabelled:
  assumes rg: "relabelled_graph p G G'"
    and nodes: "set (nodes G) = {..<N}"
    and perm: "mset p = mset [0..<N]"
    and u: "unlabelled G"
  shows "unlabelled G'"
  unfolding unlabelled_iff
proof
  fix i assume "i \<in> set (nodes G')"
  then have i: "i < N" using rg nodes by (simp add: relabelled_graph_def)
  have "atomicnum G' i = atomicnum G (p ! i)"
    using rg nodes i by (simp add: relabelled_graph_def)
  moreover have "atomicnum G (p ! i) = None"
    using u nodes permutation_nth [OF perm i] by (simp add: unlabelled_iff)
  ultimately show "atomicnum G' i = None" by simp
qed

lemma relabelling_round_trip:
  assumes perm: "mset p = mset [0..<N]" and sub: "M \<subseteq> A \<times> {..<N}"
  shows "(M O (relabelling p)\<inverse>) O relabelling p = M"
proof -
  have len: "length p = N" using perm by (rule permutation_facts(1))
  show ?thesis
  proof (intro equalityI subrelI)
    fix k w assume "(k, w) \<in> (M O (relabelling p)\<inverse>) O relabelling p"
    then obtain v i where "(k, v) \<in> M" "(i, v) \<in> relabelling p" "(i, w) \<in> relabelling p"
      by auto
    then show "(k, w) \<in> M" by (simp add: relabelling_iff)
  next
    fix k w assume kw: "(k, w) \<in> M"
    then have "w < N" using sub by auto
    from permutation_onto [OF perm this] obtain i where i: "i < N" "p ! i = w" by blast
    then have "(i, w) \<in> relabelling p" using len by (simp add: relabelling_iff)
    then show "(k, w) \<in> (M O (relabelling p)\<inverse>) O relabelling p" using kw by auto
  qed
qed

lemma isomorphism_finite_range:
  assumes "is_isomorphism G1 G2 M" and "set (nodes G2) = {..<N::nat}"
  shows "finite M" and "\<forall>(k, v)\<in>M. v < N" and "M \<subseteq> set (nodes G1) \<times> {..<N}"
proof -
  from assms have sub: "M \<subseteq> set (nodes G1) \<times> {..<N}" by (simp add: is_isomorphism_def)
  show "M \<subseteq> set (nodes G1) \<times> {..<N}" by (rule sub)
  show "finite M" using sub by (rule finite_subset) simp
  show "\<forall>(k, v)\<in>M. v < N" using sub by auto
qed

lemma min_candidate_rmsd_relabel:
  assumes rg: "relabelled_graph p G2 G2'"
    and nodes: "set (nodes G2) = {..<N}"
    and perm: "mset p = mset [0..<N]"
    and len: "length c2 = N"
  shows "min_candidate_rmsd c1 (relabel p c2) n G1 G2' = min_candidate_rmsd c1 c2 n G1 G2"
proof -
  have nodes': "set (nodes G2') = {..<N}" using rg nodes by (simp add: relabelled_graph_def)
  have perm': "mset p = mset [0..<length c2]" using perm len by simp
  have P: "is_isomorphism G2' G2 (relabelling p)"
    using rg nodes perm by (rule relabelling_isomorphism)
  have Q: "is_isomorphism G2 G2' ((relabelling p)\<inverse>)"
    using P by (rule isomorphism_converse)
  have move: "candidate_rmsd c1 (relabel p c2) n M = candidate_rmsd c1 c2 n (M O relabelling p)"
    if "is_isomorphism G1 G2' M" for M
  proof -
    have "finite M" and "\<forall>(k, v)\<in>M. v < length c2"
      using isomorphism_finite_range(1,2) [OF that nodes'] len by simp_all
    then show ?thesis using perm' by (rule candidate_rmsd_relabel)
  qed
  have "candidate_rmsd c1 (relabel p c2) n ` {M. is_isomorphism G1 G2' M}
          = candidate_rmsd c1 c2 n ` {M. is_isomorphism G1 G2 M}"
  proof (intro equalityI subsetI)
    fix x assume "x \<in> candidate_rmsd c1 (relabel p c2) n ` {M. is_isomorphism G1 G2' M}"
    then obtain M where M: "is_isomorphism G1 G2' M"
      and x: "x = candidate_rmsd c1 (relabel p c2) n M" by auto
    have lab: "unlabelled G2' \<Longrightarrow> unlabelled G1 \<or> unlabelled G2"
      using relabelled_unlabelled [OF rg nodes perm] by simp
    have "is_isomorphism G1 G2 (M O relabelling p)"
      using M P lab by (rule isomorphism_compose)
    then show "x \<in> candidate_rmsd c1 c2 n ` {M. is_isomorphism G1 G2 M}"
      using x move [OF M] by auto
  next
    fix x assume "x \<in> candidate_rmsd c1 c2 n ` {M. is_isomorphism G1 G2 M}"
    then obtain M where M: "is_isomorphism G1 G2 M"
      and x: "x = candidate_rmsd c1 c2 n M" by auto
    have lab: "unlabelled G2 \<Longrightarrow> unlabelled G1 \<or> unlabelled G2'"
      using unlabelled_relabelled [OF rg nodes perm] by simp
    have M': "is_isomorphism G1 G2' (M O (relabelling p)\<inverse>)"
      using M Q lab by (rule isomorphism_compose)
    have "(M O (relabelling p)\<inverse>) O relabelling p = M"
      using perm isomorphism_finite_range(3) [OF M nodes] by (rule relabelling_round_trip)
    then have "x = candidate_rmsd c1 (relabel p c2) n (M O (relabelling p)\<inverse>)"
      using x move [OF M'] by simp
    then show "x \<in> candidate_rmsd c1 (relabel p c2) n ` {M. is_isomorphism G1 G2' M}"
      using M' by auto
  qed
  then show ?thesis by (simp add: min_candidate_rmsd_def)
qed

lemma relabelling_cases:
  "relabelling [1, 0] = {(0, 1), (1, 0)}"
  by (auto simp: relabelling_def upt_conv_Cons)

text \<open>
  C6, as stated, fails. The second array of the example store is the first one
  relabelled by the swap of the two atoms, which is an automorphism of the graph of two
  bonded carbon atoms and leaves the adjacency matrix, the atomic numbers and so the
  graph unchanged. Whichever of the two isomorphism mappings the matcher hands over for
  that graph, the value returned for a molecule against itself differs from the value
  returned for the molecule against its relabelled copy.
\<close>

theorem rmsd_isomorphic_relabelled_counterexample:
  "relabel [1, 0] (store_ab (coordinates mol_a)) = store_ab (coordinates mol_b) \<and>
   relabel [1, 0] (atomicnums mol_a) = atomicnums mol_b \<and>
   relabel_matrix [1, 0] [[0, 1], [1, 0]] = [[0, 1], [1, 0]] \<and>
   relabelled_graph [1, 0] g_pair g_pair \<and>
   is_isomorphism g_pair g_pair (relabelling [1, 0]) \<and>
   fst (rmsd_isomorphic matcher_identity to_graph_pair store_ab mol_a mol_a False) = Inr (Num 0) \<and>
   fst (rmsd_isomorphic matcher_identity to_graph_pair store_ab mol_a mol_b False) = Inr (Num 1) \<and>
   fst (rmsd_isomorphic matcher_swap to_graph_pair store_ab mol_a mol_a False) = Inr (Num 1) \<and>
   fst (rmsd_isomorphic matcher_swap to_graph_pair store_ab mol_a mol_b False) = Inr (Num 0)"
proof -
  have 1: "relabel [1, 0] (store_ab (coordinates mol_a)) = store_ab (coordinates mol_b)"
    by (simp add: relabel_def mol_a_def mol_b_def store_ab_def upt_conv_Cons)
  have 2: "relabel [1, 0] (atomicnums mol_a) = atomicnums mol_b"
    by (simp add: relabel_def mol_a_def mol_b_def upt_conv_Cons)
  have 3: "relabel_matrix [1, 0] [[0, 1], [1, 0]] = [[0, 1], [1, 0]]"
    by (simp add: relabel_matrix_def upt_conv_Cons)
  have 4: "relabelled_graph [1, 0] g_pair g_pair"
    by (auto simp: relabelled_graph_def g_pair_def has_edge_def)
  have 5: "is_isomorphism g_pair g_pair (relabelling [1, 0])"
    unfolding relabelling_cases using g_pair_isomorphisms(2) by (simp add: insert_commute)
  show ?thesis
    using 1 2 3 4 5 rmsd_isomorphic_identity_aa rmsd_isomorphic_identity_ab
      rmsd_isomorphic_swap_aa rmsd_isomorphic_swap_ab
    by (simp only: simp_thms)
qed

text \<open>
  C6, amended. Let the second molecule's atoms be relabelled by a permutation \<open>p\<close> of
  its N atoms that is an automorphism of its labelled graph: its coordinates and its
  atomic numbers are reordered by \<open>p\<close>, and its graph is the original one with the
  vertices relabelled by \<open>p\<close>. Then the relabelled graph has the edges and the atomic
  numbers of the original graph, and for the relabelled pair \<open>rmsd_isomorphic\<close> returns
  the candidate RMSD that the original pair has under the mapping its matcher returns
  followed by \<open>p\<close>. That composed mapping is an isomorphism mapping of the original
  pair of graphs, so the value is at least the minimum of the candidate RMSD over the
  isomorphism mappings of the original pair; it need not be the value returned for the
  original pair. What the relabelling leaves unchanged is that minimum: it is the same
  for the relabelled pair as for the original pair. Both coordinate sets are taken
  centred when \<open>center\<close> is set and as they are otherwise.
\<close>

theorem rmsd_isomorphic_relabelled:
  assumes "length (atomicnums mol1) = length nums2"
    and "atomicnums mol2' = relabel p nums2"
    and "length (h (coordinates mol1)) = N" and "length c2 = N"
    and "h (coordinates mol2') = relabel p c2"
    and "len_mol mol1 = N" and "0 < N" and "mset p = mset [0..<N]"
    and "set (nodes (to_graph mol1)) = {..<N}" and "set (nodes G2) = {..<N}"
    and "relabelled_graph p G2 (to_graph mol2')"
    and "is_isomorphism G2 G2 (relabelling p)"
    and "matcher (to_graph mol1) (to_graph mol2') = Inr mapping"
    and "distinct (map fst mapping)"
    and "is_isomorphism (to_graph mol1) (to_graph mol2') (set mapping)"
  shows "let c1 = (if center then centred (h (coordinates mol1)) else h (coordinates mol1));
             c2' = (if center then centred c2 else c2);
             c2r = (if center then centred (relabel p c2) else relabel p c2);
             M = set mapping O relabelling p
         in (\<forall>i<N. \<forall>j<N. has_edge (to_graph mol2') i j = has_edge G2 i j) \<and>
            (\<forall>i<N. atomicnum (to_graph mol2') i = atomicnum G2 i) \<and>
            fst (rmsd_isomorphic matcher to_graph h mol1 mol2' center)
              = Inr (Num (candidate_rmsd c1 c2' N M)) \<and>
            is_isomorphism (to_graph mol1) G2 M \<and>
            min_candidate_rmsd c1 c2' N (to_graph mol1) G2 \<le> candidate_rmsd c1 c2' N M \<and>
            min_candidate_rmsd c1 c2r N (to_graph mol1) (to_graph mol2')
              = min_candidate_rmsd c1 c2' N (to_graph mol1) G2"
proof -
  define h' where "h' = (if center then center_in_place (center_in_place h mol1) mol2' else h)"
  define c1 where "c1 = (if center then centred (h (coordinates mol1)) else h (coordinates mol1))"
  define c2' where "c2' = (if center then centred c2 else c2)"
  define M where "M = set mapping O relabelling p"
  have lenp: "length p = N" using assms(8) by (rule permutation_facts(1))
  have n2': "set (nodes (to_graph mol2')) = {..<N}"
    using assms(11,10) by (simp add: relabelled_graph_def)
  have lc2': "length c2' = N" using assms(4) by (simp add: c2'_def centred_def)
  have perm2: "mset p = mset [0..<length c2]" using assms(8,4) by simp
  have perm2': "mset p = mset [0..<length c2']" using assms(8) lc2' by simp
  \<comment> \<open>the graph is unchanged\<close>
  have g: "(\<forall>i<N. \<forall>j<N. has_edge (to_graph mol2') i j = has_edge G2 i j) \<and>
           (\<forall>i<N. atomicnum (to_graph mol2') i = atomicnum G2 i)"
    using assms(11,10) lenp assms(12) by (rule automorphism_leaves_graph)
  \<comment> \<open>the coordinate sets the call works on\<close>
  have s1: "h' (coordinates mol1) = c1"
    by (simp add: h'_def c1_def centred_store)
  have s2: "h' (coordinates mol2') = relabel p c2'"
    by (simp add: h'_def c2'_def centred_store assms(5) centred_relabel [OF perm2])
  \<comment> \<open>the value\<close>
  have r: "(\<forall>k\<in>set (map fst mapping). k < N) \<and> (\<forall>v\<in>set (map snd mapping). v < N)"
    using assms(15,9) n2' by (rule isomorphism_in_range)
  have a1: "length (atomicnums mol1) = length (atomicnums mol2')"
    using assms(1,2) by (simp add: relabel_def)
  have a2: "length (h (coordinates mol1)) = length (h (coordinates mol2'))"
    using assms(3,4,5) by (simp add: relabel_def)
  have k: "\<forall>k\<in>set (map fst mapping). k < length (h (coordinates mol1))"
    using r assms(3) by simp
  have v: "\<forall>v\<in>set (map snd mapping). v < length (h (coordinates mol2'))"
    using r assms(4,5) by (simp add: relabel_def)
  have "rmsd_isomorphic matcher to_graph h mol1 mol2' center =
          (Inr (Num (candidate_rmsd (h' (coordinates mol1)) (h' (coordinates mol2')) N
                       (set mapping))), h')"
    using a1 a2 assms(6,7,13,14) k v h'_def by (rule rmsd_isomorphic_value)
  then have val: "fst (rmsd_isomorphic matcher to_graph h mol1 mol2' center) =
          Inr (Num (candidate_rmsd c1 (relabel p c2') N (set mapping)))"
    by (simp add: s1 s2)
  have rng: "\<forall>(k, v)\<in>set mapping. v < length c2'"
    using r lc2' by auto
  have "candidate_rmsd c1 (relabel p c2') N (set mapping) = candidate_rmsd c1 c2' N M"
    unfolding M_def using _ rng perm2' by (rule candidate_rmsd_relabel) simp
  with val have 3: "fst (rmsd_isomorphic matcher to_graph h mol1 mol2' center) =
          Inr (Num (candidate_rmsd c1 c2' N M))"
    by simp
  \<comment> \<open>the composed mapping\<close>
  have P: "is_isomorphism (to_graph mol2') G2 (relabelling p)"
    using assms(11,10,8) by (rule relabelling_isomorphism)
  have lab: "unlabelled (to_graph mol2') \<Longrightarrow> unlabelled (to_graph mol1) \<or> unlabelled G2"
    using relabelled_unlabelled [OF assms(11,10,8)] by simp
  have 4: "is_isomorphism (to_graph mol1) G2 M"
    unfolding M_def using assms(15) P lab by (rule isomorphism_compose)
  have 5: "min_candidate_rmsd c1 c2' N (to_graph mol1) G2 \<le> candidate_rmsd c1 c2' N M"
    using 4 by (rule min_candidate_rmsd_le)
  have c2r: "(if center then centred (relabel p c2) else relabel p c2) = relabel p c2'"
    by (simp add: c2'_def centred_relabel [OF perm2])
  have 6: "min_candidate_rmsd c1 (relabel p c2') N (to_graph mol1) (to_graph mol2')
             = min_candidate_rmsd c1 c2' N (to_graph mol1) G2"
    using assms(11,10,8) lc2' by (rule min_candidate_rmsd_relabel)
  show ?thesis
    unfolding Let_def c2r c1_def [symmetric] c2'_def [symmetric] M_def [symmetric]
    using g 3 4 5 6 by simp
qed

lemma centred_pair: "centred [(0, 0, 0), (1, 0, 0)] = [(- (1 / 2), 0, 0), (1 / 2, 0, 0)]"
  by (simp add: centred_def center_of_geometry_def psub_def Let_def)

theorem rmsd_isomorphic_relabelled_witness:
  "has_edge (to_graph_pair mol_b) 0 1 = has_edge g_pair 0 1 \<and>
   atomicnum (to_graph_pair mol_b) 0 = atomicnum g_pair 0 \<and>
   set [(0::nat, 0::nat), (1, 1)] O relabelling [1, 0] = {(0, 1), (1, 0)} \<and>
   fst (rmsd_isomorphic matcher_identity to_graph_pair store_ab mol_a mol_b True)
     = Inr (Num (candidate_rmsd (centred (store_ab 0)) (centred (store_ab 0)) 2 {(0, 1), (1, 0)})) \<and>
   candidate_rmsd (centred (store_ab 0)) (centred (store_ab 0)) 2 {(0, 1), (1, 0)} = 1 \<and>
   is_isomorphism (to_graph_pair mol_a) g_pair {(0, 1), (1, 0)} \<and>
   min_candidate_rmsd (centred (store_ab 0)) (centred (store_ab 0)) 2 (to_graph_pair mol_a) g_pair
     \<le> 1 \<and>
   min_candidate_rmsd (centred (store_ab 0)) (centred (relabel [1, 0] (store_ab 0))) 2
       (to_graph_pair mol_a) (to_graph_pair mol_b)
     = min_candidate_rmsd (centred (store_ab 0)) (centred (store_ab 0)) 2
         (to_graph_pair mol_a) g_pair"
proof -
  have 1: "length (atomicnums mol_a) = length [6, 6::int]" by (simp add: mol_a_def)
  have 2: "atomicnums mol_b = relabel [1, 0] [6, 6]"
    by (simp add: mol_b_def relabel_def upt_conv_Cons)
  have 3: "length (store_ab (coordinates mol_a)) = 2" by (simp add: mol_a_def store_ab_def)
  have 4: "length (store_ab 0) = 2" by (simp add: store_ab_def)
  have 5: "store_ab (coordinates mol_b) = relabel [1, 0] (store_ab 0)"
    by (simp add: mol_b_def store_ab_def relabel_def upt_conv_Cons)
  have 6: "len_mol mol_a = 2" by (simp add: len_mol_def mol_a_def)
  have 7: "0 < (2::nat)" by simp
  have 8: "mset [1, 0] = mset [0..<2]" by (simp add: upt_conv_Cons)
  have 9: "set (nodes (to_graph_pair mol_a)) = {..<2}"
    by (auto simp: to_graph_pair_def g_pair_def)
  have 10: "set (nodes g_pair) = {..<2}" by (auto simp: g_pair_def)
  have 11: "relabelled_graph [1, 0] g_pair (to_graph_pair mol_b)"
    by (auto simp: relabelled_graph_def to_graph_pair_def g_pair_def has_edge_def)
  have 12: "is_isomorphism g_pair g_pair (relabelling [1, 0])"
    unfolding relabelling_cases using g_pair_isomorphisms(2) by (simp add: insert_commute)
  have 13: "matcher_identity (to_graph_pair mol_a) (to_graph_pair mol_b) = Inr [(0, 0), (1, 1)]"
    by (simp add: matcher_identity_def)
  have 14: "distinct (map fst [(0::nat, 0::nat), (1, 1)])" by simp
  have s: "set [(0::nat, 0::nat), (1, 1)] = {(0, 0), (1, 1)}" by auto
  have 15: "is_isomorphism (to_graph_pair mol_a) (to_graph_pair mol_b) (set [(0, 0), (1, 1)])"
    unfolding s to_graph_pair_def by (rule g_pair_isomorphisms(1))
  note t = rmsd_isomorphic_relabelled
             [of mol_a "[6, 6]" mol_b "[1, 0]" store_ab 2 "store_ab 0" to_graph_pair g_pair
                 matcher_identity "[(0, 0), (1, 1)]" True,
              OF 1 2 3 4 5 6 7 8 9 10 11 12 13 14 15]
  have m: "set [(0::nat, 0::nat), (1, 1)] O relabelling [1, 0] = {(0, 1), (1, 0)}"
    unfolding relabelling_cases by auto
  have ca: "coordinates mol_a = 0" by (simp add: mol_a_def)
  have c: "candidate_rmsd (centred (store_ab 0)) (centred (store_ab 0)) 2 {(0, 1), (1, 0)} = 1"
    unfolding store_ab_0 centred_pair by (simp add: candidate_rmsd_def euclid_def)
  from t have u:
    "has_edge (to_graph_pair mol_b) 0 1 = has_edge g_pair 0 1"
    "atomicnum (to_graph_pair mol_b) 0 = atomicnum g_pair 0"
    "fst (rmsd_isomorphic matcher_identity to_graph_pair store_ab mol_a mol_b True)
       = Inr (Num (candidate_rmsd (centred (store_ab 0)) (centred (store_ab 0)) 2 {(0, 1), (1, 0)}))"
    "is_isomorphism (to_graph_pair mol_a) g_pair {(0, 1), (1, 0)}"
    "min_candidate_rmsd (centred (store_ab 0)) (centred (store_ab 0)) 2 (to_graph_pair mol_a) g_pair
       \<le> candidate_rmsd (centred (store_ab 0)) (centred (store_ab 0)) 2 {(0, 1), (1, 0)}"
    "min_candidate_rmsd (centred (store_ab 0)) (centred (relabel [1, 0] (store_ab 0))) 2
         (to_graph_pair mol_a) (to_graph_pair mol_b)
       = min_candidate_rmsd (centred (store_ab 0)) (centred (store_ab 0)) 2
           (to_graph_pair mol_a) g_pair"
    unfolding Let_def m ca by simp_all
  show ?thesis using m c u by simp
qed
section \<open>The assignment-based RMSD on mismatched populations\<close>

lemma class_indices_snoc:
  "class_indices (xs @ [x]) z = class_indices xs z @ (if x = z then [length xs] else [])"
proof -
  have "filter (\<lambda>i. (xs @ [x]) ! i = z) [0..<length xs] = filter (\<lambda>i. xs ! i = z) [0..<length xs]"
    by (intro filter_cong) (auto simp: nth_append)
  then show ?thesis by (simp add: class_indices_def)
qed

lemma length_class_indices: "length (class_indices ls z) = count_list ls z"
proof (induction ls rule: rev_induct)
  case Nil
  show ?case by (simp add: class_indices_def)
next
  case (snoc x xs)
  then show ?case by (simp add: class_indices_snoc)
qed

lemma hungarian_rmsd_mismatch:
  assumes "count_list l1 z \<noteq> count_list l2 z"
  shows "hungarian_rmsd solve c1 c2 l1 l2 = Inl LabelCountMismatch"
proof -
  have "z \<in> set l1 \<or> z \<in> set l2"
  proof (rule ccontr)
    assume "\<not> (z \<in> set l1 \<or> z \<in> set l2)"
    then have "count_list l1 z = 0" "count_list l2 z = 0" by (simp_all add: count_list_0_iff)
    with assms show False by simp
  qed
  then have "\<exists>z\<in>set (remdups (l1 @ l2)).
               length (class_indices l1 z) \<noteq> length (class_indices l2 z)"
    using assms by (auto simp: length_class_indices)
  then show ?thesis by (simp add: hungarian_rmsd_def Let_def)
qed

text \<open>
  C8, as stated, fails for sequences of different lengths: the populations differ, and
  \<open>rmsd_hungarian\<close> fails at its own assertion on the shapes, before the assignment
  step and its LabelCountMismatch are reached.
\<close>

theorem rmsd_hungarian_shape_counterexample:
  "count_list (atomicnums mol_c) 6 \<noteq> count_list (atomicnums mol_a) 6 \<and>
   fst (rmsd_hungarian solve_identity store_abc mol_c mol_a False) = Inl AssertionError"
  by (simp add: rmsd_hungarian_def mol_c_def mol_a_def)

text \<open>
  C8, amended. When the per-atomic-number atom counts of the two structures differ,
  \<open>rmsd_hungarian\<close> fails for that comparison and returns no number: with the
  assertion on the shapes when the two atomic-number sequences (or the two coordinate
  arrays) differ in length, and with LabelCountMismatch from the assignment step
  otherwise.
\<close>

theorem rmsd_hungarian_population_mismatch:
  assumes "\<exists>z. count_list (atomicnums mol1) z \<noteq> count_list (atomicnums mol2) z"
  shows "fst (rmsd_hungarian solve h mol1 mol2 center) =
           Inl (if length (atomicnums mol1) \<noteq> length (atomicnums mol2) \<or>
                   length (h (coordinates mol1)) \<noteq> length (h (coordinates mol2))
                then AssertionError else LabelCountMismatch)"
proof -
  from assms obtain z where "count_list (atomicnums mol1) z \<noteq> count_list (atomicnums mol2) z"
    by blast
  then have "\<And>c1 c2. hungarian_rmsd solve c1 c2 (atomicnums mol1) (atomicnums mol2)
               = Inl LabelCountMismatch"
    by (rule hungarian_rmsd_mismatch)
  then show ?thesis by (simp add: rmsd_hungarian_def Let_def)
qed

theorem rmsd_hungarian_population_mismatch_witness:
  "count_list (atomicnums mol_a) 8 \<noteq> count_list (atomicnums mol_d) 8 \<and>
   fst (rmsd_hungarian solve_identity store_ab mol_a mol_d False) = Inl LabelCountMismatch"
proof -
  have c: "count_list (atomicnums mol_a) 8 \<noteq> count_list (atomicnums mol_d) 8"
    by (simp add: mol_a_def mol_d_def)
  then have e: "\<exists>z. count_list (atomicnums mol_a) z \<noteq> count_list (atomicnums mol_d) z"
    by blast
  have l: "\<not> (length (atomicnums mol_a) \<noteq> length (atomicnums mol_d) \<or>
            length (store_ab (coordinates mol_a)) \<noteq> length (store_ab (coordinates mol_d)))"
    by (simp add: mol_a_def mol_d_def store_ab_def)
  show ?thesis
    using rmsd_hungarian_population_mismatch [OF e, of solve_identity store_ab False] c l
    by simp
qed

section \<open>Results of a batch\<close>

lemma batch_step_invariant:
  assumes "batch_step workers timeout jobs slots slots'"
    and "length slots = length jobs"
    and "\<forall>i<length jobs. slots ! i = Pending \<or> slots ! i = Running \<or>
           run_job timeout (jobs ! i) = Some (slots ! i)"
  shows "length slots' = length jobs \<and>
         (\<forall>i<length jobs. slots' ! i = Pending \<or> slots' ! i = Running \<or>
           run_job timeout (jobs ! i) = Some (slots' ! i))"
  using assms
proof (induction rule: batch_step.induct)
  case (start i slots)
  then show ?case by (auto simp: nth_list_update)
next
  case (finish i slots r)
  then show ?case by (auto simp: nth_list_update)
qed

lemma batch_steps_invariant:
  assumes "(batch_step workers timeout jobs)\<^sup>*\<^sup>* slots slots'"
    and "length slots = length jobs"
    and "\<forall>i<length jobs. slots ! i = Pending \<or> slots ! i = Running \<or>
           run_job timeout (jobs ! i) = Some (slots ! i)"
  shows "length slots' = length jobs \<and>
         (\<forall>i<length jobs. slots' ! i = Pending \<or> slots' ! i = Running \<or>
           run_job timeout (jobs ! i) = Some (slots' ! i))"
  using assms
proof (induction rule: rtranclp_induct)
  case base
  then show ?case by simp
next
  case (step y z)
  then have "length y = length jobs \<and>
         (\<forall>i<length jobs. y ! i = Pending \<or> y ! i = Running \<or>
           run_job timeout (jobs ! i) = Some (y ! i))"
    by simp
  with step.hyps(2) show ?case using batch_step_invariant by blast
qed

lemma batch_returns_results:
  assumes "batch_returns workers timeout jobs results"
  shows "results = map (job_result timeout) jobs"
proof -
  from assms obtain slots where
    steps: "(batch_step workers timeout jobs)\<^sup>*\<^sup>* (replicate (length jobs) Pending) slots"
    and fin: "list_all terminal slots" and res: "results = map surface slots"
    by (auto simp: batch_returns_def)
  have inv: "length slots = length jobs \<and>
         (\<forall>i<length jobs. slots ! i = Pending \<or> slots ! i = Running \<or>
           run_job timeout (jobs ! i) = Some (slots ! i))"
    using steps by (rule batch_steps_invariant) simp_all
  show ?thesis
  proof (rule nth_equalityI)
    show "length results = length (map (job_result timeout) jobs)"
      using inv res by simp
  next
    fix i assume "i < length results"
    then have i: "i < length jobs" using inv res by simp
    then have "terminal (slots ! i)" using fin inv by (simp add: list_all_length)
    then have "run_job timeout (jobs ! i) = Some (slots ! i)"
      using inv i by (cases "slots ! i") auto
    then show "results ! i = map (job_result timeout) jobs ! i"
      using i inv res by (simp add: job_result_def)
  qed
qed


lemma run_job_terminal: "run_job timeout j = Some s \<Longrightarrow> terminal s"
  by (cases j) (auto split: if_splits option.splits)

lemma terminal_not_running: "terminal s \<Longrightarrow> s \<noteq> Running \<and> s \<noteq> Pending"
  by (cases s) auto

lemma batch_runs_in_order:
  assumes w: "0 < workers"
    and ends: "\<forall>j\<in>set jobs. \<exists>s. run_job timeout j = Some s"
    and k: "k \<le> length jobs"
  shows "(batch_step workers timeout jobs)\<^sup>*\<^sup>* (replicate (length jobs) Pending)
           (map (\<lambda>j. case run_job timeout j of None \<Rightarrow> Failed | Some s \<Rightarrow> s) (take k jobs)
              @ replicate (length jobs - k) Pending)"
  using k
proof (induction k)
  case 0
  show ?case by simp
next
  case (Suc k)
  let ?e = "\<lambda>j. case run_job timeout j of None \<Rightarrow> Failed | Some s \<Rightarrow> s"
  let ?done = "map ?e (take k jobs)"
  let ?slots = "?done @ replicate (length jobs - k) Pending"
  from Suc.prems have kl: "k < length jobs" by simp
  have reach: "(batch_step workers timeout jobs)\<^sup>*\<^sup>* (replicate (length jobs) Pending) ?slots"
    using Suc.IH kl by simp
  have ld: "length ?done = k" using kl by simp
  have rep: "replicate (length jobs - k) Pending = Pending # replicate (length jobs - Suc k) Pending"
    using kl by (metis Suc_diff_Suc replicate_Suc)
  have slots: "?slots = ?done @ Pending # replicate (length jobs - Suc k) Pending"
    using rep by simp
  from ends kl obtain r where r: "run_job timeout (jobs ! k) = Some r"
    using nth_mem by blast
  have tm: "\<forall>s\<in>set ?done. terminal s"
  proof
    fix s assume "s \<in> set ?done"
    then obtain j where j: "j \<in> set (take k jobs)" and s: "s = ?e j" by auto
    from j have "j \<in> set jobs" by (rule in_set_takeD)
    with ends obtain s' where "run_job timeout j = Some s'" by blast
    then show "terminal s" using s run_job_terminal by simp
  qed
  have norun: "filter (\<lambda>s. s = Running) ?slots = []"
    using tm terminal_not_running by (auto simp: filter_empty_conv)
  have i: "k < length ?slots" using kl by simp
  have p: "?slots ! k = Pending" unfolding slots using ld by (simp add: nth_append)
  have free: "length (filter (\<lambda>s. s = Running) ?slots) < workers"
    unfolding norun using w by simp
  have s1: "batch_step workers timeout jobs ?slots (?slots[k := Running])"
    using i p free by (rule batch_step.start)
  have i2: "k < length (?slots[k := Running])" using kl by simp
  have p2: "(?slots[k := Running]) ! k = Running" using i by simp
  have s2: "batch_step workers timeout jobs (?slots[k := Running]) ((?slots[k := Running])[k := r])"
    using i2 p2 r by (rule batch_step.finish)
  have upd: "(?slots[k := Running])[k := r] = ?done @ r # replicate (length jobs - Suc k) Pending"
    unfolding slots using ld by (simp add: list_update_append)
  have tk: "map ?e (take (Suc k) jobs) = ?done @ [r]"
    using kl r by (simp add: take_Suc_conv_app_nth)
  have "(batch_step workers timeout jobs)\<^sup>*\<^sup>* (replicate (length jobs) Pending)
          ((?slots[k := Running])[k := r])"
    using reach s1 s2 by (meson rtranclp.rtrancl_into_rtrancl)
  then show ?case unfolding upd tk by simp
qed

lemma batch_returns_exists:
  assumes "0 < workers" and "\<forall>j\<in>set jobs. \<exists>s. run_job timeout j = Some s"
  shows "batch_returns workers timeout jobs (map (job_result timeout) jobs)"
proof -
  let ?e = "\<lambda>j. case run_job timeout j of None \<Rightarrow> Failed | Some s \<Rightarrow> s"
  have "(batch_step workers timeout jobs)\<^sup>*\<^sup>* (replicate (length jobs) Pending)
           (map ?e (take (length jobs) jobs) @ replicate (length jobs - length jobs) Pending)"
    using assms by (intro batch_runs_in_order) simp_all
  then have reach: "(batch_step workers timeout jobs)\<^sup>*\<^sup>* (replicate (length jobs) Pending)
           (map ?e jobs)"
    by simp
  have tm: "list_all terminal (map ?e jobs)"
    using assms(2) run_job_terminal by (fastforce simp: list_all_iff)
  have res: "map (job_result timeout) jobs = map surface (map ?e jobs)"
    using assms(2) by (auto simp: job_result_def)
  show ?thesis unfolding batch_returns_def using reach tm res by blast
qed

lemma exceeds_ends: "exceeds timeout j \<Longrightarrow> \<exists>t. timeout = Some t"
  by (cases timeout) simp_all

lemma timeout_set_ends: "\<exists>s. run_job (Some t) j = Some s"
  by (cases j) simp_all

lemma exceeds_unavailable: "exceeds timeout j \<Longrightarrow> job_result timeout j = Unavailable"
  by (cases timeout; cases j) (simp_all add: job_result_def)


text \<open>
  C4. Whenever the batch returns, in whatever order the workers took and ended the
  jobs, the returned sequence has exactly one result per target, and the result at
  each index is that of the target at the same index, whether that pair completed,
  failed or timed out.
\<close>

theorem batch_rmsd_one_result_per_target:
  assumes "batch_rmsd compute workers timeout reference targets results"
  shows "length results = length targets \<and>
         (\<forall>i<length targets. results ! i = job_result timeout (compute reference (targets ! i)))"
proof -
  have "results = map (job_result timeout) (map (compute reference) targets)"
    using assms unfolding batch_rmsd_def by (rule batch_returns_results)
  then show ?thesis by simp
qed

lemma batch_rmsd_example:
  "batch_rmsd compute_example 1 (Some 3) 0 [0, 1] [Unavailable, Value 2]"
proof -
  have "batch_returns 1 (Some 3) (map (compute_example 0) [0, 1])
          (map (job_result (Some 3)) (map (compute_example 0) [0, 1]))"
    by (rule batch_returns_exists) (simp_all add: timeout_set_ends)
  moreover have "map (job_result (Some 3)) (map (compute_example 0) [0, 1])
                   = [Unavailable, Value 2]"
    by (simp add: job_result_def compute_example_def)
  ultimately show ?thesis by (simp only: batch_rmsd_def)
qed

theorem batch_rmsd_one_result_per_target_witness:
  "batch_rmsd compute_example 1 (Some 3) 0 [0, 1] [Unavailable, Value 2] \<and>
   length [Unavailable, Value 2] = length [0::nat, 1] \<and>
   [Unavailable, Value 2] ! 1 = job_result (Some 3) (compute_example 0 ([0, 1] ! 1))"
proof -
  note t = batch_rmsd_one_result_per_target [OF batch_rmsd_example]
  have l: "length [Unavailable, Value 2] = length [0::nat, 1]"
    using t by (rule conjunct1)
  have "1 < length [0::nat, 1]" by simp
  then have n: "[Unavailable, Value 2] ! 1 = job_result (Some 3) (compute_example 0 ([0, 1] ! 1))"
    using t by blast
  show ?thesis using batch_rmsd_example l n by (intro conjI)
qed

text \<open>
  C3. With at least one worker, if the computation of one pair exceeds the per-pair
  timeout, then the batch call still returns, every sequence it can return has one
  slot per target and holds the "unavailable" sentinel in that pair's slot, and the
  sentinel is distinct from every number.
\<close>

theorem batch_timeout_gives_sentinel:
  assumes "0 < workers" and "i < length targets"
    and "exceeds timeout (compute reference (targets ! i))"
  shows "(\<exists>results. batch_rmsd compute workers timeout reference targets results) \<and>
         (\<forall>results. batch_rmsd compute workers timeout reference targets results \<longrightarrow>
            length results = length targets \<and> results ! i = Unavailable) \<and>
         (\<forall>v. Unavailable \<noteq> Value v)"
proof -
  from assms(3) obtain t where t: "timeout = Some t" using exceeds_ends by blast
  have "\<forall>j\<in>set (map (compute reference) targets). \<exists>s. run_job timeout j = Some s"
    unfolding t using timeout_set_ends by blast
  with assms(1) have "batch_returns workers timeout (map (compute reference) targets)
     (map (job_result timeout) (map (compute reference) targets))"
    by (rule batch_returns_exists)
  then have ex: "\<exists>results. batch_rmsd compute workers timeout reference targets results"
    unfolding batch_rmsd_def by blast
  have all: "\<forall>results. batch_rmsd compute workers timeout reference targets results \<longrightarrow>
            length results = length targets \<and> results ! i = Unavailable"
  proof (intro allI impI)
    fix results
    assume "batch_rmsd compute workers timeout reference targets results"
    then have "results = map (job_result timeout) (map (compute reference) targets)"
      unfolding batch_rmsd_def by (rule batch_returns_results)
    then show "length results = length targets \<and> results ! i = Unavailable"
      using assms(2) exceeds_unavailable [OF assms(3)] by simp
  qed
  show ?thesis using ex all by simp
qed

theorem batch_timeout_gives_sentinel_witness:
  "exceeds (Some 3) (compute_example 0 ([0, 1] ! 0)) \<and>
   (\<exists>results. batch_rmsd compute_example 1 (Some 3) 0 [0, 1] results \<and>
              length results = length [0::nat, 1] \<and> results ! 0 = Unavailable)"
proof -
  have 1: "0 < (1::nat)" by simp
  have 2: "0 < length [0::nat, 1]" by simp
  have 3: "exceeds (Some 3) (compute_example 0 ([0, 1] ! 0))"
    by (simp add: compute_example_def)
  show ?thesis
    using batch_timeout_gives_sentinel
            [of 1 0 "[0, 1]" "Some 3" compute_example 0, OF 1 2 3] 3
    by blast
qed

end
